theory Spec2Isabelle
  imports Complex_Main
begin

section \<open>Python values used by \<open>examples/nmnist.py\<close>\<close>

text \<open>
  The script targets Python 3 (true division \<open>correct / len(...)\<close> is relied on for the
  accuracy). The exceptions the script's own statements can raise are values of \<open>error\<close>.
\<close>

datatype error =
  TypeError | NameError | ZeroDivisionError | AttributeError | OverflowError

text \<open>
  A command-line option declared with \<open>type=float\<close> holds a Python float. A finite float
  is modelled by the rational number it denotes (every rational is admitted, so the
  doubles are a subset of the model); the negative zero, the two infinities and NaN, all
  of which \<open>float(...)\<close> accepts on the command line, are separate constructors.
\<close>

datatype pyfloat = Finite rat | NegZero | PosInf | NegInf | NaN

text \<open>Python's \<open>a > b\<close> and \<open>a <= b\<close> on floats: every comparison with NaN is false.\<close>

fun float_gt :: "pyfloat \<Rightarrow> pyfloat \<Rightarrow> bool" where
  "float_gt NaN b = False"
| "float_gt a NaN = False"
| "float_gt NegInf b = False"
| "float_gt a NegInf = True"
| "float_gt a PosInf = False"
| "float_gt PosInf b = True"
| "float_gt (Finite x) (Finite y) = (x > y)"
| "float_gt (Finite x) NegZero = (x > 0)"
| "float_gt NegZero (Finite y) = (0 > y)"
| "float_gt NegZero NegZero = False"

fun float_le :: "pyfloat \<Rightarrow> pyfloat \<Rightarrow> bool" where
  "float_le NaN b = False"
| "float_le a NaN = False"
| "float_le NegInf b = True"
| "float_le a NegInf = False"
| "float_le a PosInf = True"
| "float_le PosInf b = False"
| "float_le (Finite x) (Finite y) = (x \<le> y)"
| "float_le (Finite x) NegZero = (x \<le> 0)"
| "float_le NegZero (Finite y) = (0 \<le> y)"
| "float_le NegZero NegZero = True"

text \<open>
  The literal \<open>1e-4\<close> is the double nearest to one ten-thousandth, which is this
  rational (slightly above \<open>1/10000\<close>).
\<close>

definition lit_1e_4 :: pyfloat where
  "lit_1e_4 = Finite (7378697629483821 / 73786976294838206464)"

subsection \<open>The format \<open>%0.2f\<close>\<close>

definition digit_char :: "nat \<Rightarrow> char" where
  "digit_char d = ''0123456789'' ! d"

text \<open>The decimal numeral of a natural number, most significant digit first.\<close>

fun string_of_nat :: "nat \<Rightarrow> string" where
  "string_of_nat n =
     (if n < 10 then [digit_char n]
      else string_of_nat (n div 10) @ [digit_char (n mod 10)])"

text \<open>
  Rounding to an integer, ties to the even neighbour: Python converts the exact value
  of the float to decimal, correctly rounded, and breaks ties half-to-even.
\<close>

definition round_half_even :: "rat \<Rightarrow> int" where
  "round_half_even y =
     (let f = \<lfloor>y\<rfloor>; d = y - of_int f
      in if d < 1 / 2 then f
         else if 1 / 2 < d then f + 1
         else if even f then f else f + 1)"

text \<open>
  \<open>"%0.2f" % v\<close>: no field width is given, so the \<open>0\<close> flag pads nothing; the sign is
  that of the float (also when the rounded digits are all zero), then the integer
  digits, a point and exactly two fractional digits. Infinities and NaN print as words.
\<close>

definition format_02f :: "pyfloat \<Rightarrow> string" where
  "format_02f v =
     (case v of
        NaN \<Rightarrow> ''nan''
      | PosInf \<Rightarrow> ''inf''
      | NegInf \<Rightarrow> ''-inf''
      | NegZero \<Rightarrow> ''-0.00''
      | Finite x \<Rightarrow>
          (let q = nat (round_half_even (\<bar>x\<bar> * 100))
           in (if x < 0 then ''-'' else '''')
              @ string_of_nat (q div 100) @ ''.''
              @ [digit_char (q mod 100 div 10), digit_char (q mod 10)]))"

subsection \<open>Reading a decimal with two fractional digits\<close>

text \<open>
  What "formatted to two decimal places" means for a string, said without the
  formatter: the string is an optional minus sign, a decimal numeral without needless
  leading zeros, a point and exactly two digits; it is read as a sign and a number of
  hundredths.
\<close>

definition digit_value :: "char \<Rightarrow> nat option" where
  "digit_value c =
     map_of [(CHR ''0'', 0), (CHR ''1'', 1), (CHR ''2'', 2), (CHR ''3'', 3), (CHR ''4'', 4),
             (CHR ''5'', 5), (CHR ''6'', 6), (CHR ''7'', 7), (CHR ''8'', 8), (CHR ''9'', 9)] c"

definition digit_step :: "nat option \<Rightarrow> char \<Rightarrow> nat option" where
  "digit_step acc c =
     (case acc of
        None \<Rightarrow> None
      | Some n \<Rightarrow> (case digit_value c of None \<Rightarrow> None | Some d \<Rightarrow> Some (10 * n + d)))"

definition digits_value :: "string \<Rightarrow> nat option" where
  "digits_value s = foldl digit_step (Some 0) s"

definition read_two_decimals :: "string \<Rightarrow> (bool \<times> nat) option" where
  "read_two_decimals s =
     (let negative = (take 1 s = ''-'');
          body = (if negative then drop 1 s else s);
          k = length body - 3;
          whole = take k body
      in if length body < 4 then None
         else if body ! k \<noteq> CHR ''.'' then None
         else if take 1 whole = ''0'' \<and> 1 < k then None
         else (case digits_value whole of
                 None \<Rightarrow> None
               | Some i \<Rightarrow> (case digits_value (drop (k + 1) body) of
                              None \<Rightarrow> None
                            | Some f \<Rightarrow> Some (negative, 100 * i + f))))"

subsection \<open>Integers turned into floats\<close>

text \<open>
  The number of times a rational of at least 2 can be halved before it drops below 2,
  and the number of times a positive rational below 1 must be doubled to reach 1.
  Together they give the binary exponent \<open>e\<close> of a positive rational \<open>a\<close>, the
  integer with \<open>2^e \<le> a < 2^(e+1)\<close>.
\<close>

function halvings :: "rat \<Rightarrow> nat" where
  "halvings a = (if 2 \<le> a then Suc (halvings (a / 2)) else 0)"
  by pat_completeness auto
termination
proof (relation "measure (\<lambda>a. nat \<lfloor>a\<rfloor>)")
  show "wf (measure (\<lambda>a::rat. nat \<lfloor>a\<rfloor>))" by simp
next
  fix a :: rat
  assume a: "2 \<le> a"
  then have "a / 2 \<le> a - 1" by simp
  then have "\<lfloor>a / 2\<rfloor> \<le> \<lfloor>a - 1\<rfloor>" by (rule floor_mono)
  then have "\<lfloor>a / 2\<rfloor> < \<lfloor>a\<rfloor>" by simp
  moreover have "0 < \<lfloor>a\<rfloor>" using a by simp
  ultimately show "(a / 2, a) \<in> measure (\<lambda>a. nat \<lfloor>a\<rfloor>)" by simp
qed

function doublings :: "rat \<Rightarrow> nat" where
  "doublings a = (if 0 < a \<and> a < 1 then Suc (doublings (2 * a)) else 0)"
  by pat_completeness auto
termination
proof (relation "measure (\<lambda>a. nat \<lfloor>1 / a\<rfloor>)")
  show "wf (measure (\<lambda>a::rat. nat \<lfloor>1 / a\<rfloor>))" by simp
next
  fix a :: rat
  assume a: "0 < a \<and> a < 1"
  define y where "y = 1 / a"
  have one: "1 \<le> y" using a by (simp add: y_def)
  have half: "\<lfloor>y / 2\<rfloor> < \<lfloor>y\<rfloor>"
  proof (cases "2 \<le> y")
    case True
    then have "y / 2 \<le> y - 1" by simp
    then have "\<lfloor>y / 2\<rfloor> \<le> \<lfloor>y - 1\<rfloor>" by (rule floor_mono)
    then show ?thesis by simp
  next
    case False
    then have "\<lfloor>y / 2\<rfloor> = 0" using one by (simp add: floor_eq_iff)
    moreover have "1 \<le> \<lfloor>y\<rfloor>" using one by simp
    ultimately show ?thesis by simp
  qed
  have "1 / (2 * a) = y / 2" by (simp add: y_def)
  then have "\<lfloor>1 / (2 * a)\<rfloor> < \<lfloor>1 / a\<rfloor>" using half by (simp only: y_def)
  moreover have "0 < \<lfloor>1 / a\<rfloor>" using one by (simp add: y_def)
  ultimately show "(2 * a, a) \<in> measure (\<lambda>a. nat \<lfloor>1 / a\<rfloor>)" by simp
qed

declare halvings.simps [simp del]

declare doublings.simps [simp del]

definition floor_log2 :: "rat \<Rightarrow> int" where
  "floor_log2 a = (if 1 \<le> a then int (halvings a) else - int (doublings a))"

text \<open>
  The double nearest to a rational, ties to the even significand: 53 significant bits
  for a magnitude of at least \<open>2^-1022\<close>, multiples of \<open>2^-1074\<close> below it, an
  infinity when the rounded magnitude reaches \<open>2^1024\<close>.
\<close>

definition round_double :: "rat \<Rightarrow> pyfloat" where
  "round_double x =
     (if x = 0 then Finite 0
      else
        (let a = \<bar>x\<bar>;
             e = max (floor_log2 a) (- 1022);
             ulp = 2 powi (e - 52);
             r = of_int (round_half_even (a / ulp)) * ulp
         in if 2 powi 1024 \<le> r then (if x < 0 then NegInf else PosInf)
            else if r = 0 then (if x < 0 then NegZero else Finite 0)
            else Finite (if x < 0 then - r else r)))"

text \<open>
  \<open>float(i)\<close>, the conversion Python applies to the integer operand of a mixed
  operation: the nearest double, OverflowError when the integer is too large.
\<close>

definition int_to_float :: "int \<Rightarrow> error + pyfloat" where
  "int_to_float i =
     (case round_double (of_int i) of
        PosInf \<Rightarrow> Inl OverflowError
      | NegInf \<Rightarrow> Inl OverflowError
      | f \<Rightarrow> Inr f)"

text \<open>
  \<open>c / n\<close> on two integers: ZeroDivisionError for \<open>n = 0\<close>, otherwise the double
  nearest to the exact quotient (a zero takes the sign of the divisor), OverflowError
  when the quotient is too large.
\<close>

definition int_truediv :: "int \<Rightarrow> int \<Rightarrow> error + pyfloat" where
  "int_truediv c n =
     (if n = 0 then Inl ZeroDivisionError
      else if c = 0 then Inr (if n < 0 then NegZero else Finite 0)
      else
        (case round_double (of_int c / of_int n) of
           PosInf \<Rightarrow> Inl OverflowError
         | NegInf \<Rightarrow> Inl OverflowError
         | f \<Rightarrow> Inr f))"

definition is_zero :: "pyfloat \<Rightarrow> bool" where
  "is_zero f = (f = Finite 0 \<or> f = NegZero)"

section \<open>Configuration\<close>

text \<open>
  The namespace returned by \<open>parser.parse_args()\<close>, restricted to the attributes that
  \<open>create_data_aug\<close>, \<open>create_data_aug_name\<close> and \<open>train\<close> read. The five options
  of \<open>data_aug_args\<close> have no default, so each is \<open>None\<close> unless given.
\<close>

record args =
  drop_probability :: "pyfloat option"
  flip_lr_probability :: "pyfloat option"
  flip_ud_probability :: "pyfloat option"
  refractory_period :: "pyfloat option"
  time_jitter :: "pyfloat option"
  log_interval :: int

section \<open>The augmentation pipeline: \<open>create_data_aug\<close>\<close>

datatype dtype = Float32

datatype transform =
    DropEvent pyfloat
  | FlipLR pyfloat
  | FlipUD pyfloat
  | RefractoryPeriod pyfloat
  | TimeJitter pyfloat
  | Volume bool
  | NumpyAsType dtype

text \<open>
  Each \<open>if\<close> block of \<open>create_data_aug\<close> is one function from the list
  \<open>augmentations\<close> built so far to the list after the block, or to the exception the
  block raises. \<open>x is not None and train\<close> is tested first, so with \<open>train\<close> false
  the inner comparison is not evaluated. The \<open>print\<close> calls only write to the
  terminal and are left out.
\<close>

definition drop_block :: "args \<Rightarrow> bool \<Rightarrow> transform list \<Rightarrow> error + transform list" where
  "drop_block a train augmentations =
     (case drop_probability a of
        None \<Rightarrow> Inr augmentations
      | Some p \<Rightarrow>
          if train then
            (if float_gt p lit_1e_4 then Inr (augmentations @ [DropEvent p])
             else Inr augmentations)
          else Inr augmentations)"

definition flip_lr_block :: "args \<Rightarrow> bool \<Rightarrow> transform list \<Rightarrow> error + transform list" where
  "flip_lr_block a train augmentations =
     (case flip_lr_probability a of
        None \<Rightarrow> Inr augmentations
      | Some p \<Rightarrow>
          if train then
            (if float_gt p lit_1e_4 then Inr (augmentations @ [FlipLR p])
             else Inr augmentations)
          else Inr augmentations)"

text \<open>
  The third block tests \<open>args.flip_lr_probability > 1e-4\<close>. When that attribute is
  \<open>None\<close>, Python 3 raises TypeError for the comparison of \<open>None\<close> with a float.
\<close>

definition flip_ud_block :: "args \<Rightarrow> bool \<Rightarrow> transform list \<Rightarrow> error + transform list" where
  "flip_ud_block a train augmentations =
     (case flip_ud_probability a of
        None \<Rightarrow> Inr augmentations
      | Some p \<Rightarrow>
          if train then
            (case flip_lr_probability a of
               None \<Rightarrow> Inl TypeError
             | Some q \<Rightarrow>
                 if float_gt q lit_1e_4 then Inr (augmentations @ [FlipUD p])
                 else Inr augmentations)
          else Inr augmentations)"

definition refractory_block :: "args \<Rightarrow> bool \<Rightarrow> transform list \<Rightarrow> error + transform list" where
  "refractory_block a train augmentations =
     (case refractory_period a of
        None \<Rightarrow> Inr augmentations
      | Some p \<Rightarrow>
          if train then
            (if float_gt p lit_1e_4 then Inr (augmentations @ [RefractoryPeriod p])
             else Inr augmentations)
          else Inr augmentations)"

text \<open>
  The fifth block calls \<open>arguments.append\<close>; no name \<open>arguments\<close> is bound anywhere
  in the module, so evaluating it raises NameError before \<open>T.TimeJitter\<close> is built.
\<close>

definition time_jitter_block :: "args \<Rightarrow> bool \<Rightarrow> transform list \<Rightarrow> error + transform list" where
  "time_jitter_block a train augmentations =
     (case time_jitter a of
        None \<Rightarrow> Inr augmentations
      | Some p \<Rightarrow>
          if train then
            (if float_gt p lit_1e_4 then Inl NameError
             else Inr augmentations)
          else Inr augmentations)"

text \<open>Sequencing of statements: an exception ends the function.\<close>

definition and_then :: "error + 'a \<Rightarrow> ('a \<Rightarrow> error + 'b) \<Rightarrow> error + 'b" where
  "and_then r f = (case r of Inl e \<Rightarrow> Inl e | Inr x \<Rightarrow> f x)"

text \<open>\<open>T.Compose(augmentations)\<close> is represented by the list it wraps.\<close>

definition create_data_aug :: "args \<Rightarrow> bool \<Rightarrow> error + transform list" where
  "create_data_aug a train =
     and_then (drop_block a train [])
       (\<lambda>augs1. and_then (flip_lr_block a train augs1)
       (\<lambda>augs2. and_then (flip_ud_block a train augs2)
       (\<lambda>augs3. and_then (refractory_block a train augs3)
       (\<lambda>augs4. and_then (time_jitter_block a train augs4)
       (\<lambda>augs5. Inr (augs5 @ [Volume True] @ [NumpyAsType Float32]))))))"

section \<open>The run name: \<open>create_data_aug_name\<close>\<close>

definition create_data_aug_name :: "args \<Rightarrow> string" where
  "create_data_aug_name a =
     (let name = '''';
          name = (case drop_probability a of
                    None \<Rightarrow> name | Some v \<Rightarrow> name @ ''_dp_'' @ format_02f v);
          name = (case flip_lr_probability a of
                    None \<Rightarrow> name | Some v \<Rightarrow> name @ ''_flr_'' @ format_02f v);
          name = (case flip_ud_probability a of
                    None \<Rightarrow> name | Some v \<Rightarrow> name @ ''_fud_'' @ format_02f v);
          name = (case refractory_period a of
                    None \<Rightarrow> name | Some v \<Rightarrow> name @ ''_rp_'' @ format_02f v);
          name = (case time_jitter a of
                    None \<Rightarrow> name | Some v \<Rightarrow> name @ ''_tj_'' @ format_02f v)
      in name)"

text \<open>The configuration in which none of the five options was given.\<close>

definition no_options :: "int \<Rightarrow> args" where
  "no_options li =
     \<lparr>drop_probability = None, flip_lr_probability = None, flip_ud_probability = None,
      refractory_period = None, time_jitter = None, log_interval = li\<rparr>"

text \<open>
  The description of the run name in words: one segment per option, empty when the
  option was not given, otherwise the option's tag followed by the formatted value.
\<close>

fun segment :: "string \<Rightarrow> pyfloat option \<Rightarrow> string" where
  "segment tag None = ''''"
| "segment tag (Some v) = tag @ format_02f v"

text \<open>An option that is unset, or set to a value that is at most \<open>1e-4\<close>.\<close>

definition switched_off :: "pyfloat option \<Rightarrow> bool" where
  "switched_off opt = (case opt of None \<Rightarrow> True | Some v \<Rightarrow> float_le v lit_1e_4)"

definition all_switched_off :: "args \<Rightarrow> bool" where
  "all_switched_off a =
     (switched_off (drop_probability a) \<and> switched_off (flip_lr_probability a)
      \<and> switched_off (flip_ud_probability a) \<and> switched_off (refractory_period a)
      \<and> switched_off (time_jitter a))"

section \<open>Training and evaluation\<close>

subsection \<open>Collaborators\<close>

text \<open>
  The network's arithmetic, the loss and the optimizer belong to the torch library and
  are parameters of the model. \<open>forward\<close> is \<open>Net.forward\<close> on one sample: every
  layer of \<open>Net\<close> acts on each sample of a batch separately, and \<open>log_softmax\<close> is
  taken along \<open>dim=1\<close>, so the output of a batch is the list of the rows of its
  samples. \<open>nll_loss\<close> is \<open>F.nll_loss\<close> with its \<open>reduction\<close> argument, followed by
  \<open>.item()\<close>: a Python float. \<open>optimizer_step\<close> is the joint effect of
  \<open>optimizer.zero_grad()\<close>, \<open>loss.backward()\<close> and \<open>optimizer.step()\<close> on the
  parameters (and on the optimizer's momentum buffers, which \<open>'m\<close> includes).
  The sum and the quotient of two Python floats are the machine's floating-point
  operations; they are parameters too: \<open>float_add\<close> is \<open>+\<close> on two floats and
  \<open>float_div\<close> is \<open>/\<close> on two floats of which the second is not a zero.
  A failure inside a collaborator is outside the model.
\<close>

datatype reduction = Mean | Sum

record ('m, 'x) torch =
  forward :: "'m \<Rightarrow> 'x \<Rightarrow> rat list"
  nll_loss :: "reduction \<Rightarrow> rat list list \<Rightarrow> nat list \<Rightarrow> pyfloat"
  optimizer_step :: "'m \<Rightarrow> 'x list \<Rightarrow> nat list \<Rightarrow> 'm"
  float_add :: "pyfloat \<Rightarrow> pyfloat \<Rightarrow> pyfloat"
  float_div :: "pyfloat \<Rightarrow> pyfloat \<Rightarrow> pyfloat"

text \<open>
  A batch is a list of samples, each an input with its integer class label; \<open>data\<close>
  and \<open>target\<close> are its two projections. A loader yields its batches in order and
  knows the length of its dataset (\<open>len(loader.dataset)\<close>).
\<close>

type_synonym 'x batch = "('x \<times> nat) list"

record 'x data_loader =
  batches :: "'x batch list"
  dataset_len :: nat

text \<open>
  \<open>output.argmax(dim=1)\<close> on one row: the index of the first entry that is maximal.
\<close>

fun argmax :: "rat list \<Rightarrow> nat" where
  "argmax [] = 0"
| "argmax [x] = 0"
| "argmax (x # y # ys) =
     (let j = argmax (y # ys) in if x < (y # ys) ! j then Suc j else 0)"

subsection \<open>Module state and \<open>log\<close>\<close>

text \<open>
  One call \<open>log_writer.add_scalar(tag, value, step)\<close>. The writer is represented by
  the list of calls it has received; \<open>log_writer\<close> is \<open>None\<close> until \<open>main\<close> opens it.
\<close>

type_synonym scalar = "string \<times> pyfloat \<times> int"

record 'm run_state =
  parameters :: 'm
  training :: bool
  global_step :: int
  log_writer :: "scalar list option"

text \<open>
  \<open>log(scalars, mode)\<close>: one \<open>add_scalar\<close> per item of the dictionary, in insertion
  order, all with the current \<open>global_step\<close>. Calling a method on \<open>None\<close> raises
  AttributeError.
\<close>

fun log_fn :: "(string \<times> pyfloat) list \<Rightarrow> string \<Rightarrow> 'm run_state \<Rightarrow> error + 'm run_state" where
  "log_fn [] mode st = Inr st"
| "log_fn ((k, v) # scalars) mode st =
     (case log_writer st of
        None \<Rightarrow> Inl AttributeError
      | Some w \<Rightarrow>
          log_fn scalars mode
            (st\<lparr>log_writer := Some (w @ [(mode @ ''/'' @ k, v, global_step st)])\<rparr>))"

subsection \<open>\<open>train\<close>\<close>

text \<open>
  The body of the \<open>for\<close> loop of \<open>train\<close> at index \<open>batch_idx\<close>, followed by the rest
  of the loop. \<open>batch_idx % args.log_interval\<close> raises ZeroDivisionError when the
  interval is 0; for other intervals Python's \<open>%\<close> on integers is \<open>mod\<close>.
\<close>

fun train_loop ::
  "('m, 'x) torch \<Rightarrow> args \<Rightarrow> nat \<Rightarrow> 'x batch list \<Rightarrow> 'm run_state \<Rightarrow> error + 'm run_state"
where
  "train_loop T a batch_idx [] st = Inr st"
| "train_loop T a batch_idx (batch # rest) st =
     (let data = map fst batch; target = map snd batch;
          output = map (forward T (parameters st)) data;
          loss = nll_loss T Mean output target;
          st = st\<lparr>parameters := optimizer_step T (parameters st) data target\<rparr>
      in if log_interval a = 0 then Inl ZeroDivisionError
         else if int batch_idx mod log_interval a = 0 then
           and_then (log_fn [(''loss'', loss)] ''train'' st)
             (\<lambda>st. train_loop T a (Suc batch_idx) rest
                      (st\<lparr>global_step := global_step st + 1\<rparr>))
         else train_loop T a (Suc batch_idx) rest st)"

definition train ::
  "('m, 'x) torch \<Rightarrow> args \<Rightarrow> 'x data_loader \<Rightarrow> 'm run_state \<Rightarrow> error + 'm run_state"
where
  "train T a train_loader st =
     train_loop T a 0 (batches train_loader) (st\<lparr>training := True\<rparr>)"

subsection \<open>\<open>test\<close>\<close>

text \<open>
  \<open>test_loss\<close> starts as the integer 0 and becomes a float with the first
  \<open>+=\<close>; \<open>correct\<close> stays an integer.
\<close>

datatype pynum = PyInt int | PyFloat pyfloat

text \<open>\<open>test_loss += x\<close> for a float \<open>x\<close>: an integer operand is converted first.\<close>

definition add_float :: "('m, 'x) torch \<Rightarrow> pynum \<Rightarrow> pyfloat \<Rightarrow> error + pynum" where
  "add_float T test_loss x =
     (case test_loss of
        PyInt i \<Rightarrow> and_then (int_to_float i) (\<lambda>f. Inr (PyFloat (float_add T f x)))
      | PyFloat f \<Rightarrow> Inr (PyFloat (float_add T f x)))"

text \<open>
  \<open>test_loss /= n\<close> for an integer \<open>n\<close>: integer by integer is \<open>int_truediv\<close>;
  for a float the integer is converted first and a zero divisor then raises
  ZeroDivisionError.
\<close>

definition truediv_int :: "('m, 'x) torch \<Rightarrow> pynum \<Rightarrow> int \<Rightarrow> error + pyfloat" where
  "truediv_int T test_loss n =
     (case test_loss of
        PyInt i \<Rightarrow> int_truediv i n
      | PyFloat f \<Rightarrow>
          and_then (int_to_float n)
            (\<lambda>d. if is_zero d then Inl ZeroDivisionError else Inr (float_div T f d)))"

text \<open>The loop of \<open>test\<close>, on the pair of accumulators \<open>(test_loss, correct)\<close>.\<close>

fun test_loop ::
  "('m, 'x) torch \<Rightarrow> 'm \<Rightarrow> 'x batch list \<Rightarrow> pynum \<times> int \<Rightarrow> error + pynum \<times> int"
where
  "test_loop T m [] (test_loss, correct) = Inr (test_loss, correct)"
| "test_loop T m (batch # rest) (test_loss, correct) =
     (let data = map fst batch; target = map snd batch;
          output = map (forward T m) data
      in and_then (add_float T test_loss (nll_loss T Sum output target))
           (\<lambda>test_loss.
              let pred = map argmax output;
                  correct = correct
                    + int (length (filter (\<lambda>(p, t). p = t) (zip pred target)))
              in test_loop T m rest (test_loss, correct)))"

text \<open>
  After the loop: \<open>test_loss /= len(test_loader.dataset)\<close>, then the dictionary with
  \<open>correct / len(test_loader.dataset)\<close> is built and passed to \<open>log\<close>.
\<close>

definition test ::
  "('m, 'x) torch \<Rightarrow> args \<Rightarrow> 'x data_loader \<Rightarrow> 'm run_state \<Rightarrow> error + 'm run_state"
where
  "test T a test_loader st =
     (let st = st\<lparr>training := False\<rparr>
      in and_then (test_loop T (parameters st) (batches test_loader) (PyInt 0, 0))
           (\<lambda>(test_loss, correct).
      and_then (truediv_int T test_loss (int (dataset_len test_loader)))
           (\<lambda>test_loss.
      and_then (int_truediv correct (int (dataset_len test_loader)))
           (\<lambda>accuracy.
      log_fn [(''loss'', test_loss), (''accuracy'', accuracy)] ''test'' st))))"

subsection \<open>The epoch loop of \<open>main\<close>\<close>

text \<open>
  \<open>for epoch in range(1, args.epochs + 1): train(...); test(...)\<close>, on the list of
  epoch numbers still to run. Both loaders shuffle, so what a loader yields depends
  on the epoch.
\<close>

fun epoch_loop ::
  "('m, 'x) torch \<Rightarrow> args \<Rightarrow> (nat \<Rightarrow> 'x data_loader) \<Rightarrow> (nat \<Rightarrow> 'x data_loader)
     \<Rightarrow> nat list \<Rightarrow> 'm run_state \<Rightarrow> error + 'm run_state"
where
  "epoch_loop T a train_loader test_loader [] st = Inr st"
| "epoch_loop T a train_loader test_loader (epoch # rest) st =
     and_then (train T a (train_loader epoch) st)
       (\<lambda>st. and_then (test T a (test_loader epoch) st)
       (\<lambda>st. epoch_loop T a train_loader test_loader rest st))"

subsection \<open>Vocabulary for the properties\<close>

text \<open>The parameters after training on a list of batches, and the loss of each batch.\<close>

fun params_after :: "('m, 'x) torch \<Rightarrow> 'm \<Rightarrow> 'x batch list \<Rightarrow> 'm" where
  "params_after T m [] = m"
| "params_after T m (batch # rest) =
     params_after T (optimizer_step T m (map fst batch) (map snd batch)) rest"

fun batch_losses :: "('m, 'x) torch \<Rightarrow> 'm \<Rightarrow> 'x batch list \<Rightarrow> pyfloat list" where
  "batch_losses T m [] = []"
| "batch_losses T m (batch # rest) =
     nll_loss T Mean (map (forward T m) (map fst batch)) (map snd batch)
     # batch_losses T (optimizer_step T m (map fst batch) (map snd batch)) rest"

text \<open>The mode of a logged scalar is the part of its tag before the slash.\<close>

definition mode_of :: "scalar \<Rightarrow> string" where
  "mode_of s = takeWhile (\<lambda>c. c \<noteq> CHR ''/'') (fst s)"

definition step_of :: "scalar \<Rightarrow> int" where
  "step_of s = snd (snd s)"



text \<open>
  The scalars the loop of \<open>train\<close> writes when it starts at index \<open>i\<close> with the step
  counter at \<open>gs\<close>, given the losses of the batches still to come.
\<close>

fun logged :: "int \<Rightarrow> nat \<Rightarrow> int \<Rightarrow> pyfloat list \<Rightarrow> scalar list" where
  "logged L i gs [] = []"
| "logged L i gs (l # ls) =
     (if int i mod L = 0 then (''train/loss'', l, gs) # logged L (Suc i) (gs + 1) ls
      else logged L (Suc i) gs ls)"

text \<open>The scalars of a log that were written under mode \<open>train\<close>.\<close>

definition train_scalars :: "scalar list \<Rightarrow> scalar list" where
  "train_scalars evs = filter (\<lambda>s. mode_of s = ''train'') evs"

subsection \<open>A small concrete run\<close>

text \<open>
  Collaborators for concrete runs: a network that returns its input as the row of
  class scores, the negative log-likelihood loss (the negated score of the label,
  summed, and divided by the batch size under \<open>Mean\<close>; on the scores used below
  these are small integers, which are doubles), an optimizer whose state is the
  number of steps taken, and the correctly rounded sum and quotient of finite floats.
\<close>

definition example_torch :: "(nat, rat list) torch" where
  "example_torch =
     \<lparr>forward = (\<lambda>m x. x),
      nll_loss = (\<lambda>r output target.
         Finite ((\<Sum>(row, t)\<leftarrow>zip output target. - (row ! t))
           / (case r of Mean \<Rightarrow> of_nat (length output) | Sum \<Rightarrow> 1))),
      optimizer_step = (\<lambda>m data target. Suc m),
      float_add = (\<lambda>f g. case (f, g) of
         (Finite x, Finite y) \<Rightarrow> round_double (x + y) | _ \<Rightarrow> NaN),
      float_div = (\<lambda>f g. case (f, g) of
         (Finite x, Finite y) \<Rightarrow> round_double (x / y) | _ \<Rightarrow> NaN)\<rparr>"

text \<open>
  Two samples with three class scores each: the first has its maximum at the classes
  1 and 2 and the label 1, so it is classified correctly; the second has its maximum
  at class 1 and the label 0.
\<close>

definition sample_hit :: "rat list \<times> nat" where
  "sample_hit = ([- 1, 0, 0], 1)"

definition sample_miss :: "rat list \<times> nat" where
  "sample_miss = ([- 2, - 1, - 2], 0)"

definition example_train_loader :: "rat list data_loader" where
  "example_train_loader =
     \<lparr>batches = [[sample_hit], [sample_miss], [sample_miss, sample_hit]],
      dataset_len = 4\<rparr>"

text \<open>Ten held-out samples in two batches, seven of them classified correctly.\<close>

definition example_test_loader :: "rat list data_loader" where
  "example_test_loader =
     \<lparr>batches = [[sample_hit, sample_hit, sample_hit, sample_hit, sample_miss],
                 [sample_hit, sample_hit, sample_hit, sample_miss, sample_miss]],
      dataset_len = 10\<rparr>"

definition example_state :: "nat run_state" where
  "example_state =
     \<lparr>parameters = 0, training = False, global_step = 0, log_writer = Some []\<rparr>"

section \<open>Properties of the number formats\<close>

subsection \<open>Rounding to a double\<close>

lemma halvings_bounds:
  "1 \<le> a \<Longrightarrow> 2 ^ halvings a \<le> a \<and> a < 2 * 2 ^ halvings a"
proof (induction a rule: halvings.induct)
  case (1 a)
  show ?case
  proof (cases "2 \<le> a")
    case True
    then have "1 \<le> a / 2" by simp
    with "1.IH" [OF True] have "2 ^ halvings (a / 2) \<le> a / 2"
      and "a / 2 < 2 * 2 ^ halvings (a / 2)" by simp_all
    moreover have "halvings a = Suc (halvings (a / 2))"
      using True by (subst halvings.simps) simp
    ultimately show ?thesis by simp
  next
    case False
    then have "halvings a = 0" by (subst halvings.simps) simp
    with False "1.prems" show ?thesis by simp
  qed
qed

lemma doublings_bounds:
  "0 < a \<Longrightarrow> a < 1 \<Longrightarrow> 1 \<le> a * 2 ^ doublings a \<and> a * 2 ^ doublings a < 2"
proof (induction a rule: doublings.induct)
  case (1 a)
  have step: "doublings a = Suc (doublings (2 * a))"
    using "1.prems" by (subst doublings.simps) simp
  show ?case
  proof (cases "2 * a < 1")
    case True
    from "1.prems" have "0 < a \<and> a < 1" by simp
    from "1.IH" [OF this] True "1.prems"
    have "1 \<le> 2 * a * 2 ^ doublings (2 * a) \<and> 2 * a * 2 ^ doublings (2 * a) < 2"
      by simp
    then show ?thesis unfolding step by (simp add: mult.assoc mult.left_commute)
  next
    case False
    then have "doublings (2 * a) = 0" by (subst doublings.simps) simp
    with False "1.prems" show ?thesis unfolding step by simp
  qed
qed

lemma floor_log2_bounds:
  assumes "0 < a"
  shows "2 powi floor_log2 a \<le> a \<and> a < 2 powi (floor_log2 a + 1)"
proof (cases "1 \<le> a")
  case True
  have "(2::rat) powi (int (halvings a) + 1) = 2 * 2 ^ halvings a"
    by (simp add: power_int_add)
  with halvings_bounds [OF True] True show ?thesis
    by (simp add: floor_log2_def)
next
  case False
  then have lt: "a < 1" by simp
  let ?d = "doublings a"
  from doublings_bounds [OF assms lt]
  have lo: "1 \<le> a * 2 ^ ?d" and hi: "a * 2 ^ ?d < 2" by simp_all
  have p: "(2::rat) powi (- int ?d) = 1 / 2 ^ ?d"
    by (simp add: power_int_minus divide_inverse)
  have "(2::rat) powi (- int ?d + 1) = 2 powi (- int ?d) * 2 powi 1"
    by (rule power_int_add) simp
  then have "(2::rat) powi (- int ?d + 1) = 2 / 2 ^ ?d"
    by (simp only: p power_int_1_right)
  moreover have "- int ?d + 1 = 1 - int ?d" by simp
  ultimately have q: "(2::rat) powi (1 - int ?d) = 2 / 2 ^ ?d" by (simp only:)
  have "1 / 2 ^ ?d \<le> a" using lo by (simp add: field_simps)
  moreover have "a < 2 / 2 ^ ?d" using hi by (simp add: field_simps)
  ultimately show ?thesis using lt by (simp add: floor_log2_def p q)
qed

lemma round_half_even_near:
  "\<bar>of_int (round_half_even y) - y\<bar> \<le> 1 / 2
   \<and> (\<bar>of_int (round_half_even y) - y\<bar> < 1 / 2 \<or> even (round_half_even y))"
proof -
  define f where "f = \<lfloor>y\<rfloor>"
  have lo: "of_int f \<le> y" and hi: "y < of_int f + 1" unfolding f_def by linarith+
  consider "y - of_int f < 1 / 2" | "1 / 2 < y - of_int f"
    | "y - of_int f = 1 / 2" "even f" | "y - of_int f = 1 / 2" "odd f"
    by fastforce
  then show ?thesis
  proof cases
    case 1
    then have e: "round_half_even y = f"
      by (simp add: round_half_even_def Let_def f_def)
    have "\<bar>of_int f - y\<bar> < 1 / 2" using 1 lo by linarith
    then show ?thesis unfolding e by simp
  next
    case 2
    then have e: "round_half_even y = f + 1"
      by (simp add: round_half_even_def Let_def f_def)
    have "\<bar>of_int (f + 1) - y\<bar> < 1 / 2" using 2 hi by simp
    then show ?thesis unfolding e by simp
  next
    case 3
    then have e: "round_half_even y = f"
      by (simp add: round_half_even_def Let_def f_def)
    have "\<bar>of_int f - y\<bar> \<le> 1 / 2" using 3 by linarith
    then show ?thesis unfolding e using 3(2) by simp
  next
    case 4
    then have e: "round_half_even y = f + 1"
      by (simp add: round_half_even_def Let_def f_def)
    have "\<bar>of_int (f + 1) - y\<bar> \<le> 1 / 2" using 4 by simp
    then show ?thesis unfolding e using 4(2) by simp
  qed
qed

lemma round_half_even_of_int: "round_half_even (of_int k) = k"
  by (simp add: round_half_even_def)

lemma round_half_even_ge: "of_int k \<le> y \<Longrightarrow> k \<le> round_half_even y"
proof -
  assume "of_int k \<le> y"
  then have "k \<le> \<lfloor>y\<rfloor>" by (simp add: le_floor_iff)
  then show ?thesis by (simp add: round_half_even_def Let_def)
qed


lemma powi_exponent_less:
  assumes "(2::rat) powi i < 2 powi j"
  shows "i < j"
proof (rule ccontr)
  assume "\<not> i < j"
  then have "j \<le> i" by simp
  then have "(2::rat) powi j \<le> 2 powi i" by (rule power_int_increasing) simp
  with assms show False by simp
qed



lemma round_double_small_int:
  assumes pos: "0 < k" and small: "k \<le> 2 ^ 53"
  shows "round_double (of_int k) = Finite (of_int k)"
proof -
  define q :: rat where "q = of_int k"
  define e where "e = floor_log2 q"
  define ulp :: rat where "ulp = 2 powi (e - 52)"
  have q1: "1 \<le> q" using pos by (simp add: q_def)
  then have qpos: "0 < q" by simp
  have q53: "q \<le> 2 ^ 53"
  proof -
    have "(of_int k :: rat) \<le> of_int (2 ^ 53)" using small by (simp only: of_int_le_iff)
    then show ?thesis by (simp add: q_def)
  qed
  from floor_log2_bounds [OF qpos]
  have lo: "2 powi e \<le> q" and hi: "q < 2 powi (e + 1)" by (simp_all add: e_def)
  have "(2::rat) powi 0 < 2 powi (e + 1)" using q1 hi by simp
  then have "0 < e + 1" by (rule powi_exponent_less)
  then have e_lo: "0 \<le> e" by simp
  have "(2::rat) powi e < 2 powi 54"
  proof -
    have "(2::rat) ^ 53 < 2 ^ 54" by simp
    with lo q53 show ?thesis by simp
  qed
  then have e_hi: "e < 54" by (rule powi_exponent_less)
  have ulp_pos: "0 < ulp" by (simp add: ulp_def)
  have "\<exists>j. q / ulp = of_int j"
  proof (cases "e \<le> 52")
    case True
    have "(2::rat) powi (e - 52) * 2 powi (52 - e) = 2 powi ((e - 52) + (52 - e))"
      by (rule power_int_add [symmetric]) simp
    then have "ulp * 2 powi (52 - e) = 1" by (simp add: ulp_def)
    moreover have "(2::rat) powi (52 - e) = 2 ^ nat (52 - e)"
      using True by (simp add: power_int_def)
    ultimately have "ulp * 2 ^ nat (52 - e) = 1" by simp
    then have "1 / ulp = 2 ^ nat (52 - e)" using ulp_pos by (simp add: field_simps)
    then have "q / ulp = q * 2 ^ nat (52 - e)" by (simp add: divide_inverse)
    then have "q / ulp = of_int (k * 2 ^ nat (52 - e))" by (simp add: q_def)
    then show ?thesis by blast
  next
    case False
    with e_hi have e53: "e = 53" by simp
    then have "(2::rat) ^ 53 \<le> q" using lo by simp
    with q53 have "q = 2 ^ 53" by simp
    moreover have "ulp = 2" by (simp add: ulp_def e53)
    ultimately have "q / ulp = of_int (2 ^ 52)" by simp
    then show ?thesis by blast
  qed
  then obtain j where j: "q / ulp = of_int j" by blast
  then have r: "of_int (round_half_even (q / ulp)) * ulp = q"
    using ulp_pos by (simp add: round_half_even_of_int field_simps)
  have "(2::rat) ^ 53 < 2 ^ 1024" by (rule power_strict_increasing) simp_all
  with q53 have not_inf: "\<not> (2::rat) powi 1024 \<le> q" by simp
  have "max (floor_log2 q) (- 1022) = e" using e_lo by (simp add: e_def)
  then have "round_double q = Finite q"
    using qpos not_inf r
    by (simp add: round_double_def Let_def ulp_def [symmetric] del: power_int_numeral)
  then show ?thesis by (simp add: q_def)
qed



subsection \<open>Numerals and the two-decimal reader\<close>

lemma digit_value_digit_char: "d < 10 \<Longrightarrow> digit_value (digit_char d) = Some d"
proof -
  assume "d < 10"
  then have "d \<in> {0, 1, 2, 3, 4, 5, 6, 7, 8, 9}" by auto
  then show ?thesis by (auto simp add: digit_value_def digit_char_def)
qed

lemma digit_value_Some: "digit_value c = Some d \<Longrightarrow> d < 10 \<and> c = digit_char d"
  by (auto simp add: digit_value_def digit_char_def split: if_splits)

lemma digits_value_snoc:
  "digits_value (s @ [c]) = digit_step (digits_value s) c"
  by (simp add: digits_value_def)

lemma digits_value_Nil: "digits_value [] = Some 0"
  by (simp add: digits_value_def)

lemma digits_value_string_of_nat: "digits_value (string_of_nat n) = Some n"
proof (induction n rule: string_of_nat.induct)
  case (1 n)
  show ?case
  proof (cases "n < 10")
    case True
    have "digits_value ([] @ [digit_char n]) = Some n"
      unfolding digits_value_snoc
      by (simp add: digits_value_Nil digit_step_def digit_value_digit_char True)
    with True show ?thesis by simp
  next
    case False
    then have ih: "digits_value (string_of_nat (n div 10)) = Some (n div 10)"
      using 1 by simp
    have "string_of_nat n = string_of_nat (n div 10) @ [digit_char (n mod 10)]"
      using False by (subst string_of_nat.simps) simp
    then have "digits_value (string_of_nat n)
        = digit_step (Some (n div 10)) (digit_char (n mod 10))"
      by (simp only: digits_value_snoc ih)
    also have "\<dots> = Some n"
      by (simp add: digit_step_def digit_value_digit_char)
    finally show ?thesis .
  qed
qed

lemma string_of_nat_nonempty: "string_of_nat n \<noteq> []"
  by (subst string_of_nat.simps) simp

lemma length_string_of_nat_small: "n < 10 \<Longrightarrow> string_of_nat n = [digit_char n]"
  by (subst string_of_nat.simps) simp

lemma digit_char_zero: "d < 10 \<Longrightarrow> digit_char d = CHR ''0'' \<longleftrightarrow> d = 0"
proof -
  assume "d < 10"
  then have "d \<in> {0, 1, 2, 3, 4, 5, 6, 7, 8, 9}" by auto
  then show ?thesis by (auto simp add: digit_char_def)
qed

lemma string_of_nat_leading:
  "0 < n \<Longrightarrow> take 1 (string_of_nat n) \<noteq> ''0''"
proof (induction n rule: string_of_nat.induct)
  case (1 n)
  show ?case
  proof (cases "n < 10")
    case True
    with 1(2) show ?thesis
      by (simp add: length_string_of_nat_small digit_char_zero del: string_of_nat.simps)
  next
    case False
    then have pos: "0 < n div 10" by simp
    have ih: "take 1 (string_of_nat (n div 10)) \<noteq> ''0''"
      using 1(1) False pos by simp
    have eq: "string_of_nat n = string_of_nat (n div 10) @ [digit_char (n mod 10)]"
      using False by (subst string_of_nat.simps) simp
    have ne: "string_of_nat (n div 10) \<noteq> []" by (rule string_of_nat_nonempty)
    then obtain c cs where cs: "string_of_nat (n div 10) = c # cs"
      by (cases "string_of_nat (n div 10)") auto
    show ?thesis using ih unfolding eq cs by simp
  qed
qed

lemma length_string_of_nat_big: "10 \<le> n \<Longrightarrow> 1 < length (string_of_nat n)"
proof -
  assume n: "10 \<le> n"
  have eq: "string_of_nat n = string_of_nat (n div 10) @ [digit_char (n mod 10)]"
    using n by (subst string_of_nat.simps) simp
  have "string_of_nat (n div 10) \<noteq> []" by (rule string_of_nat_nonempty)
  then have "0 < length (string_of_nat (n div 10))" by simp
  then show ?thesis unfolding eq by simp
qed

text \<open>A numeral without needless leading zeros is the one the formatter writes.\<close>

lemma digits_value_unique:
  "digits_value s = Some n \<Longrightarrow> s \<noteq> [] \<Longrightarrow> \<not> (take 1 s = ''0'' \<and> 1 < length s)
   \<Longrightarrow> s = string_of_nat n"
proof (induction s arbitrary: n rule: rev_induct)
  case Nil
  then show ?case by simp
next
  case (snoc c s)
  from snoc.prems(1) obtain a d where a: "digits_value s = Some a"
    and d: "digit_value c = Some d" and n: "n = 10 * a + d"
    by (auto simp add: digits_value_snoc digit_step_def split: option.splits)
  from d have d10: "d < 10" and c: "c = digit_char d"
    using digit_value_Some by blast+
  show ?case
  proof (cases "s = []")
    case True
    with a have "a = 0" by (simp add: digits_value_Nil)
    with n d10 have "string_of_nat n = [digit_char d]"
      by (simp add: length_string_of_nat_small del: string_of_nat.simps)
    with True c show ?thesis by simp
  next
    case False
    then obtain x xs where xs: "s = x # xs" by (cases s) auto
    from snoc.prems(3) have lead: "take 1 s \<noteq> ''0''"
      unfolding xs by simp
    then have "\<not> (take 1 s = ''0'' \<and> 1 < length s)" by simp
    with snoc.IH [OF a False] have s: "s = string_of_nat a" by simp
    have "a \<noteq> 0"
    proof
      assume "a = 0"
      with s have "s = ''0''" by (simp add: digit_char_def)
      with lead show False by simp
    qed
    with n have big: "\<not> n < 10" by simp
    have "n div 10 = a" "n mod 10 = d" using n d10 by simp_all
    then have "string_of_nat n = string_of_nat a @ [digit_char d]"
      using big by (subst string_of_nat.simps) simp
    with s c show ?thesis by simp
  qed
qed

lemma digits_value_two:
  "digits_value [c1, c2] = Some f \<longleftrightarrow>
     (\<exists>d1 d2. digit_value c1 = Some d1 \<and> digit_value c2 = Some d2 \<and> f = 10 * d1 + d2)"
  by (auto simp add: digits_value_def digit_step_def split: option.splits)

lemma two_digits:
  "f < 100 \<Longrightarrow>
   digits_value [digit_char (f div 10), digit_char (f mod 10)] = Some f"
  by (simp add: digits_value_two digit_value_digit_char less_mult_imp_div_less)

lemma string_of_nat_no_sign: "take 1 (string_of_nat n) \<noteq> ''-''"
proof (induction n rule: string_of_nat.induct)
  case (1 n)
  show ?case
  proof (cases "n < 10")
    case True
    then have "n \<in> {0, 1, 2, 3, 4, 5, 6, 7, 8, 9}" by auto
    then have "digit_char n \<noteq> CHR ''-''"
      by (auto simp add: digit_char_def)
    with True show ?thesis
      by (simp add: length_string_of_nat_small del: string_of_nat.simps)
  next
    case False
    have ih: "take 1 (string_of_nat (n div 10)) \<noteq> ''-''"
      using 1 False by simp
    have eq: "string_of_nat n = string_of_nat (n div 10) @ [digit_char (n mod 10)]"
      using False by (subst string_of_nat.simps) simp
    have ne: "string_of_nat (n div 10) \<noteq> []" by (rule string_of_nat_nonempty)
    then obtain c cs where cs: "string_of_nat (n div 10) = c # cs"
      by (cases "string_of_nat (n div 10)") auto
    show ?thesis using ih unfolding eq cs by simp
  qed
qed

lemma string_of_nat_canonical:
  "\<not> (take 1 (string_of_nat n) = ''0'' \<and> 1 < length (string_of_nat n))"
proof (cases "n = 0")
  case True
  then show ?thesis by simp
next
  case False
  then show ?thesis using string_of_nat_leading [of n] by simp
qed

lemma read_body:
  assumes w: "w \<noteq> []" and sign: "take 1 w \<noteq> ''-''"
    and canon: "\<not> (take 1 w = ''0'' \<and> 1 < length w)"
    and i: "digits_value w = Some i" and f: "digits_value [c1, c2] = Some f"
  shows "read_two_decimals ((if neg then ''-'' else []) @ w @ ''.'' @ [c1, c2])
           = Some (neg, 100 * i + f)"
proof -
  obtain x xs where xs: "w = x # xs" using w by (cases w) auto
  let ?body = "w @ ''.'' @ [c1, c2]"
  have t1: "take 1 ((if neg then ''-'' else []) @ ?body) = ''-'' \<longleftrightarrow> neg"
    using sign unfolding xs by simp
  have body: "(if neg then drop 1 ((if neg then ''-'' else []) @ ?body)
               else (if neg then ''-'' else []) @ ?body) = ?body"
    by simp
  have len: "length ?body - 3 = length w" by simp
  have tk: "take (length w) ?body = w" by simp
  have nth: "?body ! length w = CHR ''.''" by (simp add: nth_append)
  have dr: "drop (length w + 1) ?body = [c1, c2]" by simp
  have l4: "\<not> length ?body < 4" using w by (simp add: xs)
  show ?thesis
    unfolding read_two_decimals_def Let_def t1 body len tk nth dr
    using l4 canon i f by simp
qed

lemma read_format:
  "read_two_decimals (format_02f (Finite x))
     = Some (x < 0, nat (round_half_even (\<bar>x\<bar> * 100)))"
proof -
  let ?q = "nat (round_half_even (\<bar>x\<bar> * 100))"
  have fm: "format_02f (Finite x) =
          (if x < 0 then ''-'' else []) @ string_of_nat (?q div 100) @ ''.''
          @ [digit_char (?q mod 100 div 10), digit_char (?q mod 10)]"
    by (simp add: format_02f_def Let_def del: string_of_nat.simps)
  have m: "?q mod 10 = ?q mod 100 mod 10"
    by (simp add: mod_mod_cancel)
  have f: "digits_value [digit_char (?q mod 100 div 10), digit_char (?q mod 10)]
             = Some (?q mod 100)"
    unfolding m by (rule two_digits) simp
  have "read_two_decimals (format_02f (Finite x))
          = Some (x < 0, 100 * (?q div 100) + ?q mod 100)"
    unfolding fm
    by (rule read_body [OF string_of_nat_nonempty string_of_nat_no_sign
          string_of_nat_canonical digits_value_string_of_nat f])
  then show ?thesis by simp
qed

lemma read_unique:
  assumes r: "read_two_decimals t = Some (neg, q)"
  shows "t = (if neg then ''-'' else []) @ string_of_nat (q div 100) @ ''.''
             @ [digit_char (q mod 100 div 10), digit_char (q mod 10)]"
proof -
  define body where "body = (if take 1 t = ''-'' then drop 1 t else t)"
  define k where "k = length body - 3"
  define whole where "whole = take k body"
  from r have l4: "\<not> length body < 4" and pt: "body ! k = CHR ''.''"
    and canon: "\<not> (take 1 whole = ''0'' \<and> 1 < k)"
    and val: "\<exists>i f. digits_value whole = Some i \<and> digits_value (drop (k + 1) body) = Some f
              \<and> neg = (take 1 t = ''-'') \<and> q = 100 * i + f"
    unfolding read_two_decimals_def Let_def body_def [symmetric] k_def [symmetric]
      whole_def [symmetric]
    by (auto split: if_splits option.splits)
  from val obtain i f where i: "digits_value whole = Some i"
    and f: "digits_value (drop (k + 1) body) = Some f"
    and neg: "neg = (take 1 t = ''-'')" and q: "q = 100 * i + f"
    by blast
  have kl: "k < length body" "length whole = k" "0 < k"
    using l4 by (simp_all add: k_def whole_def)
  have "length (drop (k + 1) body) = 2" using l4 by (simp add: k_def)
  then obtain c1 c2 where c12: "drop (k + 1) body = [c1, c2]"
    by (cases "drop (k + 1) body"; cases "tl (drop (k + 1) body)") auto
  have split: "body = whole @ ''.'' @ [c1, c2]"
  proof -
    have "body = take k body @ body ! k # drop (Suc k) body"
      using kl(1) by (rule id_take_nth_drop)
    then show ?thesis using pt c12 by (simp add: whole_def)
  qed
  from f c12 obtain d1 d2 where d1: "digit_value c1 = Some d1"
    and d2: "digit_value c2 = Some d2" and fd: "f = 10 * d1 + d2"
    by (auto simp add: digits_value_two)
  from d1 d2 have b: "d1 < 10" "d2 < 10" and c: "c1 = digit_char d1" "c2 = digit_char d2"
    using digit_value_Some by blast+
  have qi: "q div 100 = i" and qf: "q mod 100 = f"
    using q fd b by simp_all
  have fd1: "f div 10 = d1"
    using fd b by simp
  have fd2: "q mod 10 = d2"
    using q fd b by presburger
  have wne: "whole \<noteq> []" using kl by auto
  have "\<not> (take 1 whole = ''0'' \<and> 1 < length whole)" using canon kl(2) by simp
  with i wne have w: "whole = string_of_nat i" by (rule digits_value_unique)
  have t: "t = (if neg then ''-'' else []) @ body"
  proof (cases "take 1 t = ''-''")
    case True
    then obtain ts where "t = CHR ''-'' # ts" by (cases t) auto
    with True neg show ?thesis by (simp add: body_def)
  next
    case False
    with neg show ?thesis by (simp add: body_def)
  qed
  show ?thesis
    unfolding qi qf fd1 fd2 using t split w c by simp
qed

lemma format_unique:
  "read_two_decimals t = Some (x < 0, nat (round_half_even (\<bar>x\<bar> * 100)))
   \<Longrightarrow> t = format_02f (Finite x)"
  by (drule read_unique) (simp add: format_02f_def Let_def del: string_of_nat.simps)

subsection \<open>Two worked roundings\<close>

lemma round_double_3_10:
  "round_double (3 / 10) = Finite (5404319552844595 / 18014398509481984)"
proof -
  have "floor_log2 (3 / 10) = - 2"
    by (simp add: floor_log2_def doublings.simps)
  moreover have "\<lfloor>27021597764222976 / 5 :: rat\<rfloor> = 5404319552844595"
    by (rule floor_unique) simp_all
  ultimately show ?thesis
    by (simp add: round_double_def round_half_even_def Let_def)
qed

lemma format_02f_0_3:
  "format_02f (Finite (5404319552844595 / 18014398509481984)) = ''0.30''"
proof -
  have "\<lfloor>135107988821114875 / 4503599627370496 :: rat\<rfloor> = 29"
    by (rule floor_unique) simp_all
  then show ?thesis
    by (simp add: format_02f_def round_half_even_def Let_def digit_char_def)
qed

lemma nearest_hundredth:
  "\<exists>q. nat (round_half_even (\<bar>x\<bar> * 100)) = q
     \<and> \<bar>of_nat q - \<bar>x\<bar> * 100\<bar> \<le> 1 / 2
     \<and> (\<bar>of_nat q - \<bar>x\<bar> * 100\<bar> < 1 / 2 \<or> even q)"
proof -
  define k where "k = round_half_even (\<bar>x\<bar> * 100)"
  have "(of_int 0 :: rat) \<le> \<bar>x\<bar> * 100" by simp
  then have k0: "0 \<le> k" unfolding k_def by (rule round_half_even_ge)
  then have n: "(of_nat (nat k) :: rat) = of_int k"
    by (metis of_int_of_nat_eq int_nat_eq)
  have e: "even (nat k) \<longleftrightarrow> even k" using k0 by (simp add: even_nat_iff)
  have "\<bar>of_int k - \<bar>x\<bar> * 100\<bar> \<le> 1 / 2
     \<and> (\<bar>of_int k - \<bar>x\<bar> * 100\<bar> < 1 / 2 \<or> even k)"
    unfolding k_def by (rule round_half_even_near)
  then show ?thesis
    unfolding k_def [symmetric] n [symmetric] e [symmetric] by simp
qed

section \<open>Properties of the pipeline builder and the run name\<close>

lemmas block_defs = create_data_aug_def and_then_def drop_block_def flip_lr_block_def
  flip_ud_block_def refractory_block_def time_jitter_block_def

lemma float_le_not_gt: "float_le v w \<Longrightarrow> \<not> float_gt v w"
  by (cases v; cases w) auto

lemma segment_empty: "segment (c # tag) opt = [] \<longleftrightarrow> opt = None"
  by (cases opt) simp_all

lemma name_segments:
  "create_data_aug_name a =
     segment ''_dp_'' (drop_probability a) @ segment ''_flr_'' (flip_lr_probability a)
     @ segment ''_fud_'' (flip_ud_probability a) @ segment ''_rp_'' (refractory_period a)
     @ segment ''_tj_'' (time_jitter a)"
  by (simp add: create_data_aug_name_def split: option.splits)

text \<open>
  Claim C1: each of the five optional steps is in \<open>build(config, is_training)\<close> exactly
  when training is on, the option is present and the option's own value exceeds
  \<open>1e-4\<close>. The code does not do this for two of the five. With flip-LR present at 0
  and flip-UD at 0.5, training on, the flip-UD step is left out although its own value
  exceeds the threshold; with flip-LR at 0.5 and flip-UD at 0 the flip-UD step is built
  although its own value does not; and with the time jitter at 0.5 no pipeline is
  returned at all, the call raises NameError.
\<close>

theorem create_data_aug_flip_ud_jitter_guards:
  "create_data_aug ((no_options 10)\<lparr>flip_lr_probability := Some (Finite 0),
         flip_ud_probability := Some (Finite (1 / 2))\<rparr>) True
       = Inr [Volume True, NumpyAsType Float32]
   \<and> float_gt (Finite (1 / 2)) lit_1e_4
   \<and> create_data_aug ((no_options 10)\<lparr>flip_lr_probability := Some (Finite (1 / 2)),
         flip_ud_probability := Some (Finite 0)\<rparr>) True
       = Inr [FlipLR (Finite (1 / 2)), FlipUD (Finite 0), Volume True, NumpyAsType Float32]
   \<and> \<not> float_gt (Finite 0) lit_1e_4
   \<and> create_data_aug ((no_options 10)\<lparr>time_jitter := Some (Finite (1 / 2))\<rparr>) True
       = Inl NameError"
  by (simp add: block_defs no_options_def lit_1e_4_def)

text \<open>
  Claim C2: \<open>build\<close> has no error conditions and never raises. The code raises: with
  only the time jitter given, above the threshold, the training pipeline fails with
  NameError, and with only the flip-UD probability given it fails with TypeError.
\<close>

theorem create_data_aug_raises:
  "create_data_aug ((no_options 10)\<lparr>time_jitter := Some (Finite 1000)\<rparr>) True
       = Inl NameError
   \<and> create_data_aug ((no_options 10)\<lparr>flip_ud_probability := Some (Finite (1 / 2))\<rparr>) True
       = Inl TypeError"
  by (simp add: block_defs no_options_def lit_1e_4_def)

text \<open>
  Claim C3: for every configuration, whatever the five options hold,
  \<open>build(config, False)\<close> returns normally and its pipeline is the binning step
  followed by the dtype cast and nothing else.
\<close>

theorem create_data_aug_eval_pipeline:
  "create_data_aug a False = Inr [Volume True, NumpyAsType Float32]"
  by (simp add: block_defs split: option.splits)

text \<open>
  Claim C4 as stated fails: the options are parsed by \<open>float\<close>, which accepts
  \<open>nan\<close> and \<open>inf\<close>, and such a value is not printed with two decimals. With the
  refractory period NaN the name is \<open>_rp_nan\<close>, with an infinite time jitter it is
  \<open>_tj_inf\<close>; neither \<open>nan\<close> nor \<open>inf\<close> reads as a number with two decimals.
\<close>

theorem create_data_aug_name_nan:
  "create_data_aug_name ((no_options 10)\<lparr>refractory_period := Some NaN\<rparr>) = ''_rp_nan''
   \<and> read_two_decimals ''nan'' = None
   \<and> create_data_aug_name ((no_options 10)\<lparr>time_jitter := Some PosInf\<rparr>) = ''_tj_inf''
   \<and> read_two_decimals ''inf'' = None"
  by (simp add: name_segments no_options_def format_02f_def read_two_decimals_def)

text \<open>
  Claim C4, amended: the run name is a function of the configuration alone; it is the
  concatenation, in the order drop, flip-LR, flip-UD, refractory, jitter, of one
  segment for each option that is present, whatever its magnitude, and with only the
  refractory period given it is the single segment tagged \<open>_rp_\<close>. A finite value
  \<open>x\<close> is printed with two decimals: the printed string reads as the sign of \<open>x\<close> and
  a number \<open>q\<close> of hundredths, \<open>q\<close> is the integer nearest to \<open>100 * |x|\<close> (the even
  one of two that are equally near), and the printed string is the only one that
  reads so. Negative zero prints as \<open>-0.00\<close>, NaN as \<open>nan\<close>, the infinities as \<open>inf\<close>
  and \<open>-inf\<close>. A drop probability of 0.30 (the double nearest to 3/10) alone gives
  \<open>_dp_0.30\<close>.
\<close>

theorem create_data_aug_name_two_decimals:
  "create_data_aug_name a =
     segment ''_dp_'' (drop_probability a) @ segment ''_flr_'' (flip_lr_probability a)
     @ segment ''_fud_'' (flip_ud_probability a) @ segment ''_rp_'' (refractory_period a)
     @ segment ''_tj_'' (time_jitter a)
   \<and> create_data_aug_name ((no_options li)\<lparr>refractory_period := Some v\<rparr>)
       = ''_rp_'' @ format_02f v
   \<and> (\<exists>q. read_two_decimals (format_02f (Finite x)) = Some (x < 0, q)
         \<and> \<bar>of_nat q - \<bar>x\<bar> * 100\<bar> \<le> 1 / 2
         \<and> (\<bar>of_nat q - \<bar>x\<bar> * 100\<bar> < 1 / 2 \<or> even q)
         \<and> (\<forall>t. read_two_decimals t = Some (x < 0, q) \<longrightarrow> t = format_02f (Finite x)))
   \<and> format_02f NegZero = ''-0.00'' \<and> read_two_decimals ''-0.00'' = Some (True, 0)
   \<and> format_02f NaN = ''nan'' \<and> format_02f PosInf = ''inf''
   \<and> format_02f NegInf = ''-inf''
   \<and> round_double (3 / 10) = Finite (5404319552844595 / 18014398509481984)
   \<and> create_data_aug_name ((no_options li)\<lparr>drop_probability :=
         Some (Finite (5404319552844595 / 18014398509481984))\<rparr>) = ''_dp_0.30''"
proof (intro conjI)
  show "create_data_aug_name a =
     segment ''_dp_'' (drop_probability a) @ segment ''_flr_'' (flip_lr_probability a)
     @ segment ''_fud_'' (flip_ud_probability a) @ segment ''_rp_'' (refractory_period a)
     @ segment ''_tj_'' (time_jitter a)"
    by (rule name_segments)
  show "create_data_aug_name ((no_options li)\<lparr>refractory_period := Some v\<rparr>)
       = ''_rp_'' @ format_02f v"
    by (simp add: name_segments no_options_def)
  show "create_data_aug_name ((no_options li)\<lparr>drop_probability :=
         Some (Finite (5404319552844595 / 18014398509481984))\<rparr>) = ''_dp_0.30''"
    by (simp add: name_segments no_options_def format_02f_0_3)
  show "round_double (3 / 10) = Finite (5404319552844595 / 18014398509481984)"
    by (rule round_double_3_10)
  show "format_02f NegZero = ''-0.00''" "format_02f NaN = ''nan''"
    "format_02f PosInf = ''inf''" "format_02f NegInf = ''-inf''"
    by (simp_all add: format_02f_def)
  show "read_two_decimals ''-0.00'' = Some (True, 0)"
    by (simp add: read_two_decimals_def digits_value_def digit_step_def digit_value_def)
  obtain q where q: "nat (round_half_even (\<bar>x\<bar> * 100)) = q"
    and near: "\<bar>of_nat q - \<bar>x\<bar> * 100\<bar> \<le> 1 / 2"
    and tie: "\<bar>of_nat q - \<bar>x\<bar> * 100\<bar> < 1 / 2 \<or> even q"
    using nearest_hundredth [of x] by blast
  have "read_two_decimals (format_02f (Finite x)) = Some (x < 0, q)"
    unfolding q [symmetric] by (rule read_format)
  moreover have "\<forall>t. read_two_decimals t = Some (x < 0, q) \<longrightarrow> t = format_02f (Finite x)"
    unfolding q [symmetric] by (intro allI impI) (rule format_unique)
  ultimately show "\<exists>q. read_two_decimals (format_02f (Finite x)) = Some (x < 0, q)
         \<and> \<bar>of_nat q - \<bar>x\<bar> * 100\<bar> \<le> 1 / 2
         \<and> (\<bar>of_nat q - \<bar>x\<bar> * 100\<bar> < 1 / 2 \<or> even q)
         \<and> (\<forall>t. read_two_decimals t = Some (x < 0, q) \<longrightarrow> t = format_02f (Finite x))"
    using near tie by blast
qed

theorem create_data_aug_name_two_decimals_witness:
  "read_two_decimals ''0.12'' = Some (False, 12)
   \<and> format_02f (Finite (1 / 8)) = ''0.12''
   \<and> create_data_aug_name ((no_options 10)\<lparr>refractory_period := Some (Finite (1 / 8))\<rparr>)
       = ''_rp_0.12''"
proof -
  have r: "read_two_decimals ''0.12'' = Some (False, 12)"
    by (simp add: read_two_decimals_def digits_value_def digit_step_def digit_value_def)
  note c4 = create_data_aug_name_two_decimals
    [where a = "no_options 10" and li = 10 and v = "Finite (1 / 8)" and x = "1 / 8"]
  from c4 have name: "create_data_aug_name
      ((no_options 10)\<lparr>refractory_period := Some (Finite (1 / 8))\<rparr>)
       = ''_rp_'' @ format_02f (Finite (1 / 8))"
    by (rule conjunct1 [OF conjunct2])
  from c4 have "\<exists>q. read_two_decimals (format_02f (Finite (1 / 8))) = Some ((1 / 8 :: rat) < 0, q)
         \<and> \<bar>of_nat q - \<bar>1 / 8 :: rat\<bar> * 100\<bar> \<le> 1 / 2
         \<and> (\<bar>of_nat q - \<bar>1 / 8 :: rat\<bar> * 100\<bar> < 1 / 2 \<or> even q)
         \<and> (\<forall>t. read_two_decimals t = Some ((1 / 8 :: rat) < 0, q)
               \<longrightarrow> t = format_02f (Finite (1 / 8)))"
    by (rule conjunct1 [OF conjunct2 [OF conjunct2]])
  then obtain q where near: "\<bar>of_nat q - \<bar>1 / 8 :: rat\<bar> * 100\<bar> \<le> 1 / 2"
    and tie: "\<bar>of_nat q - \<bar>1 / 8 :: rat\<bar> * 100\<bar> < 1 / 2 \<or> even q"
    and only: "\<forall>t. read_two_decimals t = Some ((1 / 8 :: rat) < 0, q)
               \<longrightarrow> t = format_02f (Finite (1 / 8))"
    by blast
  from near have "\<bar>of_nat q - 25 / 2 :: rat\<bar> \<le> 1 / 2" by simp
  then have "(of_nat 12 :: rat) \<le> of_nat q" "(of_nat q :: rat) \<le> of_nat 13"
    by linarith+
  then have "12 \<le> q" "q \<le> 13" by (simp_all only: of_nat_le_iff)
  then have "q = 12 \<or> q = 13" by arith
  moreover have "q \<noteq> 13" using tie by auto
  ultimately have q: "q = 12" by simp
  from only r have f: "format_02f (Finite (1 / 8)) = ''0.12''"
    unfolding q by simp
  from r f name show ?thesis by simp
qed

text \<open>
  Claim C5 as stated fails: a drop probability of 0 is at most \<open>1e-4\<close>, every other
  option is unset, and the run name is \<open>_dp_0.00\<close>, not the empty string.
\<close>

theorem name_nonempty_when_switched_off:
  "all_switched_off ((no_options 10)\<lparr>drop_probability := Some (Finite 0)\<rparr>)
   \<and> create_data_aug_name ((no_options 10)\<lparr>drop_probability := Some (Finite 0)\<rparr>)
       = ''_dp_0.00''"
  by (simp add: all_switched_off_def switched_off_def no_options_def lit_1e_4_def
      name_segments format_02f_def round_half_even_def digit_char_def)

text \<open>
  Claim C5, amended: for every configuration in which each of the five options is
  unset or at most \<open>1e-4\<close>, and in which flip-LR is given whenever flip-UD is,
  \<open>build(config, True)\<close> and \<open>build(config, False)\<close> both return the two-step
  pipeline (binning, dtype cast); the run name of such a configuration is the empty
  string exactly when all five options are unset.
\<close>

theorem switched_off_pipeline_and_name:
  assumes off: "all_switched_off a"
    and lr: "flip_ud_probability a \<noteq> None \<longrightarrow> flip_lr_probability a \<noteq> None"
  shows "create_data_aug a True = Inr [Volume True, NumpyAsType Float32]
     \<and> create_data_aug a False = Inr [Volume True, NumpyAsType Float32]
     \<and> (create_data_aug_name a = '''' \<longleftrightarrow>
          drop_probability a = None \<and> flip_lr_probability a = None
          \<and> flip_ud_probability a = None \<and> refractory_period a = None
          \<and> time_jitter a = None)"
proof (intro conjI)
  show "create_data_aug a False = Inr [Volume True, NumpyAsType Float32]"
    by (simp add: block_defs split: option.splits)
  show "create_data_aug a True = Inr [Volume True, NumpyAsType Float32]"
    using off lr
    by (auto simp add: block_defs all_switched_off_def switched_off_def
        split: option.splits dest: float_le_not_gt)
  show "create_data_aug_name a = '''' \<longleftrightarrow>
          drop_probability a = None \<and> flip_lr_probability a = None
          \<and> flip_ud_probability a = None \<and> refractory_period a = None
          \<and> time_jitter a = None"
    by (simp add: name_segments segment_empty)
qed

theorem switched_off_pipeline_and_name_witness:
  "all_switched_off ((no_options 10)\<lparr>drop_probability := Some (Finite 0),
       flip_lr_probability := Some (Finite (1 / 20000)),
       flip_ud_probability := Some NegZero\<rparr>)
   \<and> create_data_aug ((no_options 10)\<lparr>drop_probability := Some (Finite 0),
       flip_lr_probability := Some (Finite (1 / 20000)),
       flip_ud_probability := Some NegZero\<rparr>) True
      = Inr [Volume True, NumpyAsType Float32]
   \<and> create_data_aug_name ((no_options 10)\<lparr>drop_probability := Some (Finite 0),
       flip_lr_probability := Some (Finite (1 / 20000)),
       flip_ud_probability := Some NegZero\<rparr>) \<noteq> ''''"
proof -
  let ?a = "(no_options 10)\<lparr>drop_probability := Some (Finite 0),
       flip_lr_probability := Some (Finite (1 / 20000)),
       flip_ud_probability := Some NegZero\<rparr>"
  have off: "all_switched_off ?a"
    by (simp add: all_switched_off_def switched_off_def no_options_def lit_1e_4_def)
  have lr: "flip_ud_probability ?a \<noteq> None \<longrightarrow> flip_lr_probability ?a \<noteq> None"
    by (simp add: no_options_def)
  from switched_off_pipeline_and_name [OF off lr] off show ?thesis
    by (simp add: no_options_def)
qed

text \<open>
  Claim C10: for every configuration in which the flip-UD probability is present and
  the flip-LR probability is absent, \<open>build(config, True)\<close> raises: the flip-UD block
  compares the absent flip-LR value with \<open>1e-4\<close>, a TypeError, and neither includes
  nor skips the flip-UD step.
\<close>

theorem flip_ud_without_flip_lr_raises:
  assumes "flip_ud_probability a \<noteq> None" and "flip_lr_probability a = None"
  shows "create_data_aug a True = Inl TypeError"
  using assms by (auto simp add: block_defs split: option.splits)

theorem flip_ud_without_flip_lr_raises_witness:
  "create_data_aug ((no_options 10)\<lparr>flip_ud_probability := Some (Finite (1 / 2)),
       time_jitter := Some (Finite 3)\<rparr>) True = Inl TypeError"
  using flip_ud_without_flip_lr_raises
    [of "(no_options 10)\<lparr>flip_ud_probability := Some (Finite (1 / 2)),
       time_jitter := Some (Finite 3)\<rparr>"]
  by (simp add: no_options_def)

section \<open>Properties of the training and evaluation steps\<close>

subsection \<open>Counting the batches that are logged\<close>

lemma ceil_count_Suc:
  assumes "0 < (L::nat)"
  shows "(Suc m + L - 1) div L = (if m mod L = 0 then Suc ((m + L - 1) div L) else (m + L - 1) div L)"
proof -
  define k where "k = m + L - 1"
  have sk: "Suc m + L - 1 = Suc k" using assms by (simp add: k_def)
  have "Suc k = m + L" using assms by (simp add: k_def)
  then have md: "Suc k mod L = m mod L" by (simp only: mod_add_self2)
  have "Suc k div L = (if m mod L = 0 then Suc (k div L) else k div L)"
    by (simp only: div_Suc md)
  then show ?thesis unfolding sk k_def .
qed

lemma ceil_count_multiple:
  assumes "0 < (L::nat)" and "m mod L = 0"
  shows "(m + L - 1) div L * L = m"
proof -
  from assms(2) obtain q where q: "m = q * L"
    by (metis mod_eq_0_iff_dvd dvd_def mult.commute)
  have "m + L - 1 = (L - 1) + q * L" using assms(1) q by simp
  then have "(m + L - 1) div L = (L - 1) div L + q" using assms(1)
    by (simp only: div_mult_self1 [of L "L - 1" q ] div_mult_self3)
  then have "(m + L - 1) div L = q" using assms(1) by simp
  then show ?thesis using q by simp
qed

lemma multiples_upt:
  assumes "0 < L"
  shows "filter (\<lambda>j. j mod L = 0) [0..<m] = map (\<lambda>k. k * L) [0..<(m + L - 1) div L]"
proof (induction m)
  case 0
  then show ?case using assms by simp
next
  case (Suc m)
  define N where "N = (m + L - 1) div L"
  have step: "(Suc m + L - 1) div L = (if m mod L = 0 then Suc N else N)"
    unfolding N_def by (rule ceil_count_Suc [OF assms])
  have IH: "filter (\<lambda>j. j mod L = 0) [0..<m] = map (\<lambda>k. k * L) [0..<N]"
    unfolding N_def by (rule Suc.IH)
  show ?case
  proof (cases "m mod L = 0")
    case True
    then have "N * L = m" unfolding N_def by (rule ceil_count_multiple [OF assms])
    then show ?thesis unfolding step using True IH by simp
  next
    case False
    then show ?thesis unfolding step using IH by simp
  qed
qed

lemma int_ceil_div:
  assumes "0 < (b::int)"
  shows "(a + b - 1) div b = (if a mod b = 0 then a div b else a div b + 1)"
proof -
  have "a + b - 1 = (a mod b + b - 1) + (a div b) * b"
    by (simp add: algebra_simps)
  then have "(a + b - 1) div b = ((a mod b + b - 1) + (a div b) * b) div b"
    by (rule arg_cong)
  also have "\<dots> = a div b + (a mod b + b - 1) div b" using assms
    by (simp only: div_mult_self1) 
  finally have e: "(a + b - 1) div b = a div b + (a mod b + b - 1) div b" .
  show ?thesis
  proof (cases "a mod b = 0")
    case True
    then show ?thesis using e assms by (simp add: div_pos_pos_trivial)
  next
    case False
    have "0 \<le> a mod b" "a mod b < b" using assms by simp_all
    with False have r: "0 \<le> a mod b - 1" "a mod b - 1 < b" by simp_all
    have "(a mod b + b - 1) div b = ((a mod b - 1) + b) div b" by (simp add: algebra_simps)
    also have "\<dots> = (a mod b - 1) div b + 1" using assms by simp
    also have "\<dots> = 1" using r by (simp add: div_pos_pos_trivial)
    finally show ?thesis using e False by simp
  qed
qed

lemma ceil_div:
  assumes "0 < L" 
  shows "nat \<lceil>(of_nat n :: rat) / of_int L\<rceil> = (n + nat L - 1) div nat L"
proof -
  have "\<lceil>(of_nat n :: rat) / of_int L\<rceil> = \<lceil>(of_int (int n) :: rat) / of_int L\<rceil>" by simp
  also have "\<dots> = - (- int n div L)" by (rule ceiling_divide_eq_div)
  also have "\<dots> = (int n + L - 1) div L" using assms
    by (simp add: int_ceil_div zdiv_zminus1_eq_if)
  finally have "nat \<lceil>(of_nat n :: rat) / of_int L\<rceil> = nat ((int n + L - 1) div L)" by simp
  also have "\<dots> = nat (int n + L - 1) div nat L" using assms
    by (simp add: nat_div_distrib)
  also have "nat (int n + L - 1) = n + nat L - 1" using assms by simp
  finally show ?thesis .
qed

lemma logged_filter:
  "logged L i gs ls =
     map (\<lambda>j. (''train/loss'', ls ! (j - i),
                gs + int (length (filter (\<lambda>j. int j mod L = 0) [i..<j]))))
       (filter (\<lambda>j. int j mod L = 0) [i..<i + length ls])"
proof (induction ls arbitrary: i gs)
  case Nil
  then show ?case by simp
next
  case (Cons l ls)
  let ?P = "\<lambda>j. int j mod L = 0"
  let ?xs = "filter ?P [Suc i..<Suc i + length ls]"
  have "[i..<i + length (l # ls)] = i # [Suc i..<i + length (l # ls)]"
    by (rule upt_conv_Cons) simp
  then have upt: "[i..<i + length (l # ls)] = i # [Suc i..<Suc i + length ls]"
    by simp
  have later: "\<And>j. j \<in> set ?xs \<Longrightarrow> Suc i \<le> j" by auto
  have nth: "\<And>j. Suc i \<le> j \<Longrightarrow> (l # ls) ! (j - i) = ls ! (j - Suc i)"
    by (simp add: Suc_diff_le)
  have split: "\<And>j. Suc i \<le> j \<Longrightarrow> [i..<j] = i # [Suc i..<j]"
    by (simp add: upt_conv_Cons)
  show ?case
  proof (cases "?P i")
    case True
    have "map (\<lambda>j. (''train/loss'', (l # ls) ! (j - i), gs + int (length (filter ?P [i..<j])))) ?xs
        = map (\<lambda>j. (''train/loss'', ls ! (j - Suc i), gs + 1 + int (length (filter ?P [Suc i..<j])))) ?xs"
    proof (rule map_cong [OF refl])
      fix j assume "j \<in> set ?xs"
      then have "Suc i \<le> j" by (rule later)
      then show "(''train/loss'', (l # ls) ! (j - i), gs + int (length (filter ?P [i..<j])))
        = (''train/loss'', ls ! (j - Suc i), gs + 1 + int (length (filter ?P [Suc i..<j])))"
        using True by (simp add: nth split)
    qed
    then show ?thesis using True unfolding upt by (simp add: Cons.IH)
  next
    case False
    have "map (\<lambda>j. (''train/loss'', (l # ls) ! (j - i), gs + int (length (filter ?P [i..<j])))) ?xs
        = map (\<lambda>j. (''train/loss'', ls ! (j - Suc i), gs + int (length (filter ?P [Suc i..<j])))) ?xs"
    proof (rule map_cong [OF refl])
      fix j assume "j \<in> set ?xs"
      then have "Suc i \<le> j" by (rule later)
      then show "(''train/loss'', (l # ls) ! (j - i), gs + int (length (filter ?P [i..<j])))
        = (''train/loss'', ls ! (j - Suc i), gs + int (length (filter ?P [Suc i..<j])))"
        using False by (simp add: nth split)
    qed
    then show ?thesis using False unfolding upt by (simp add: Cons.IH)
  qed
qed

lemma int_mod_nat: "0 < L \<Longrightarrow> (int j mod L = 0) = (j mod nat L = 0)"
  by (metis int_nat_eq less_le_not_le of_nat_0 of_nat_eq_iff zmod_int linorder_le_cases order_less_imp_le)

lemma logged_multiples:
  assumes "0 < L"
  shows "logged L 0 gs ls =
     map (\<lambda>k. (''train/loss'', ls ! (k * nat L), gs + int k))
       [0..<nat \<lceil>(of_nat (length ls) :: rat) / of_int L\<rceil>]"
proof -
  have pos: "0 < nat L" using assms by simp
  have P: "(\<lambda>j. int j mod L = 0) = (\<lambda>j. j mod nat L = 0)"
    using assms by (simp add: int_mod_nat)
  have kdiv: "\<And>k. (k * nat L + nat L - 1) div nat L = k"
  proof -
    fix k
    have "k * nat L + nat L - 1 = (nat L - 1) + k * nat L" using pos by simp
    then have "(k * nat L + nat L - 1) div nat L = ((nat L - 1) + k * nat L) div nat L"
      by (rule arg_cong)
    also have "\<dots> = k + (nat L - 1) div nat L" using pos by (simp only: div_mult_self1)
    finally show "(k * nat L + nat L - 1) div nat L = k" using pos by simp
  qed
  show ?thesis
    unfolding logged_filter P
    by (simp add: multiples_upt [OF pos] ceil_div [OF assms] comp_def kdiv del: One_nat_def)
qed

subsection \<open>The effect of \<open>log\<close> and of the training loop\<close>

lemma log_fn_open:
  "log_writer st = Some w \<Longrightarrow>
   log_fn scalars mode st =
     Inr (st\<lparr>log_writer := Some (w @ map (\<lambda>(k, v). (mode @ ''/'' @ k, v, global_step st)) scalars)\<rparr>)"
proof (induction scalars arbitrary: st w)
  case Nil
  then show ?case by simp
next
  case (Cons kv scalars)
  obtain k v where kv: "kv = (k, v)" by (cases kv)
  let ?st = "st\<lparr>log_writer := Some (w @ [(mode @ ''/'' @ k, v, global_step st)])\<rparr>"
  have "log_writer ?st = Some (w @ [(mode @ ''/'' @ k, v, global_step st)])" by simp
  from Cons.IH [OF this] show ?case using Cons.prems kv by simp
qed

lemma log_fn_closed:
  "log_writer st = None \<Longrightarrow> scalars \<noteq> [] \<Longrightarrow> log_fn scalars mode st = Inl AttributeError"
  by (cases scalars) auto

lemma train_loop_open:
  "log_interval a \<noteq> 0 \<Longrightarrow> log_writer st = Some w \<Longrightarrow>
   train_loop T a i bs st =
     Inr (st\<lparr>parameters := params_after T (parameters st) bs,
             global_step := global_step st
                + int (length (logged (log_interval a) i (global_step st)
                        (batch_losses T (parameters st) bs))),
             log_writer := Some (w @ logged (log_interval a) i (global_step st)
                        (batch_losses T (parameters st) bs))\<rparr>)"
proof (induction bs arbitrary: i st w)
  case Nil
  then show ?case by simp
next
  case (Cons b bs)
  show ?case
  proof (cases "int i mod log_interval a = 0")
    case True
    then show ?thesis using Cons.prems
      by (simp add: Let_def and_then_def log_fn_open Cons.IH)
  next
    case False
    then show ?thesis using Cons.prems
      by (simp add: Let_def Cons.IH)
  qed
qed

lemma length_batch_losses: "length (batch_losses T m bs) = length bs"
  by (induction bs arbitrary: m) simp_all

lemma logged_steps:
  "map step_of (logged L i gs ls) = map (\<lambda>k. gs + int k) [0..<length (logged L i gs ls)]"
proof (induction ls arbitrary: i gs)
  case Nil
  then show ?case by simp
next
  case (Cons l ls)
  show ?case
  proof (cases "int i mod L = 0")
    case True
    have "map step_of (logged L (Suc i) (gs + 1) ls)
            = map (\<lambda>k. gs + 1 + int k) [0..<length (logged L (Suc i) (gs + 1) ls)]"
      by (rule Cons.IH)
    moreover have "step_of (''train/loss'', l, gs) = gs" by (simp add: step_of_def)
    ultimately show ?thesis using True
      by (simp add: map_upt_Suc add.assoc del: upt_Suc)
  next
    case False
    then show ?thesis using Cons.IH by simp
  qed
qed

lemma logged_modes: "e \<in> set (logged L i gs ls) \<Longrightarrow> mode_of e = ''train''"
  by (induction ls arbitrary: i gs) (auto simp: mode_of_def split: if_splits)

subsection \<open>The effect of \<open>test\<close>\<close>

lemma and_then_Inr:
  "and_then r f = Inr y \<Longrightarrow> \<exists>x. r = Inr x \<and> f x = Inr y"
  by (cases r) (simp_all add: and_then_def)




lemma int_to_float_zero: "int_to_float 0 = Inr (Finite 0)"
  by (simp add: int_to_float_def round_double_def)




lemma test_returns:
  assumes "test T a ld st = Inr st'"
  shows "\<exists>w l acc. log_writer st = Some w
           \<and> st' = st\<lparr>training := False,
                       log_writer := Some (w @ [(''test/loss'', l, global_step st),
                                                (''test/accuracy'', acc, global_step st)])\<rparr>"
proof -
  let ?st = "st\<lparr>training := False\<rparr>"
  from assms obtain l acc
    where lg: "log_fn [(''loss'', l), (''accuracy'', acc)] ''test'' ?st = Inr st'"
    unfolding test_def Let_def
    by (auto dest!: and_then_Inr simp del: log_fn.simps)
  show ?thesis
  proof (cases "log_writer st")
    case None
    then have "log_writer ?st = None" by simp
    then have "log_fn [(''loss'', l), (''accuracy'', acc)] ''test'' ?st = Inl AttributeError"
      by (rule log_fn_closed) simp
    with lg show ?thesis by simp
  next
    case (Some w)
    then have w': "log_writer ?st = Some w" by simp
    from lg log_fn_open [OF w', of "[(''loss'', l), (''accuracy'', acc)]" "''test''"]
    have "st' = st\<lparr>training := False,
                       log_writer := Some (w @ [(''test/loss'', l, global_step st),
                                                (''test/accuracy'', acc, global_step st)])\<rparr>"
      by simp
    with Some show ?thesis by blast
  qed
qed

subsection \<open>The step counter over the epochs\<close>

lemma train_effect:
  assumes ret: "train T a ld st = Inr st'" and w: "log_writer st = Some w"
  shows "\<exists>evs. log_writer st' = Some (w @ evs)
           \<and> train_scalars evs = evs
           \<and> map step_of evs = map (\<lambda>k. global_step st + int k) [0..<length evs]
           \<and> global_step st' = global_step st + int (length evs)"
proof (cases "batches ld = [] \<or> log_interval a \<noteq> 0")
  case False
  then obtain b bs where "batches ld = b # bs" and "log_interval a = 0"
    by (cases "batches ld") auto
  then have "train T a ld st = Inl ZeroDivisionError"
    by (simp add: train_def Let_def)
  with ret show ?thesis by simp
next
  case True
  show ?thesis
  proof (cases "batches ld = []")
    case True
    then have "st' = st\<lparr>training := True\<rparr>" using ret by (simp add: train_def)
    then show ?thesis using w by (simp add: train_scalars_def)
  next
    case False
    with True have nz: "log_interval a \<noteq> 0" by simp
    let ?st = "st\<lparr>training := True\<rparr>"
    let ?evs = "logged (log_interval a) 0 (global_step st)
                  (batch_losses T (parameters st) (batches ld))"
    have w': "log_writer ?st = Some w" using w by simp
    from train_loop_open [OF nz w', of T 0 "batches ld"] ret
    have st': "st' = ?st\<lparr>parameters := params_after T (parameters st) (batches ld),
             global_step := global_step st + int (length ?evs),
             log_writer := Some (w @ ?evs)\<rparr>"
      by (simp add: train_def)
    have "train_scalars ?evs = ?evs"
      unfolding train_scalars_def by (rule filter_True) (simp add: logged_modes)
    moreover have "map step_of ?evs = map (\<lambda>k. global_step st + int k) [0..<length ?evs]"
      by (rule logged_steps)
    ultimately show ?thesis using st' by simp
  qed
qed

lemma test_effect:
  assumes ret: "test T a ld st = Inr st'" and w: "log_writer st = Some w"
  shows "\<exists>evs. log_writer st' = Some (w @ evs) \<and> train_scalars evs = []
           \<and> global_step st' = global_step st"
proof -
  from test_returns [OF ret] w obtain l acc where
    "st' = st\<lparr>training := False,
                log_writer := Some (w @ [(''test/loss'', l, global_step st),
                                         (''test/accuracy'', acc, global_step st)])\<rparr>"
    by auto
  then show ?thesis by (simp add: train_scalars_def mode_of_def)
qed

lemma map_upt_add:
  "map f [0..<n1 + n2] = map f [0..<n1] @ map (\<lambda>k. f (n1 + k)) [0..<n2]"
  by (induction n2) simp_all

lemma epoch_loop_effect:
  assumes "epoch_loop T a trl tel es st = Inr st'" and "log_writer st = Some w"
  shows "\<exists>evs. log_writer st' = Some (w @ evs)
           \<and> map step_of (train_scalars evs)
               = map (\<lambda>k. global_step st + int k) [0..<length (train_scalars evs)]
           \<and> global_step st' = global_step st + int (length (train_scalars evs))"
  using assms
proof (induction es arbitrary: st w)
  case Nil
  then show ?case by (simp add: train_scalars_def)
next
  case (Cons e es)
  from Cons.prems(1) obtain s1 where tr: "train T a (trl e) st = Inr s1"
    and rest1: "and_then (test T a (tel e) s1)
                 (\<lambda>st. epoch_loop T a trl tel es st) = Inr st'"
    by (auto dest: and_then_Inr)
  from rest1 obtain s2 where te: "test T a (tel e) s1 = Inr s2"
    and rest2: "epoch_loop T a trl tel es s2 = Inr st'"
    by (auto dest: and_then_Inr)
  from train_effect [OF tr Cons.prems(2)] obtain e1 where
    w1: "log_writer s1 = Some (w @ e1)" and t1: "train_scalars e1 = e1"
    and s1: "map step_of e1 = map (\<lambda>k. global_step st + int k) [0..<length e1]"
    and g1: "global_step s1 = global_step st + int (length e1)" by blast
  from test_effect [OF te w1] obtain e2 where
    w2: "log_writer s2 = Some ((w @ e1) @ e2)" and t2: "train_scalars e2 = []"
    and g2: "global_step s2 = global_step s1" by blast
  from Cons.IH [OF rest2 w2] obtain e3 where
    w3: "log_writer st' = Some (((w @ e1) @ e2) @ e3)"
    and s3: "map step_of (train_scalars e3)
               = map (\<lambda>k. global_step s2 + int k) [0..<length (train_scalars e3)]"
    and g3: "global_step st' = global_step s2 + int (length (train_scalars e3))" by blast
  have ts: "train_scalars (e1 @ e2 @ e3) = e1 @ train_scalars e3"
    using t1 t2 by (simp add: train_scalars_def)
  have "map step_of (e1 @ train_scalars e3)
      = map (\<lambda>k. global_step st + int k) [0..<length e1 + length (train_scalars e3)]"
    unfolding map_upt_add using s1 s3 g2 g1 by (simp add: add.assoc)
  then have "map step_of (train_scalars (e1 @ e2 @ e3))
      = map (\<lambda>k. global_step st + int k) [0..<length (train_scalars (e1 @ e2 @ e3))]"
    unfolding ts by simp
  moreover have "global_step st' = global_step st + int (length (train_scalars (e1 @ e2 @ e3)))"
    unfolding ts using g3 g2 g1 by simp
  moreover have "log_writer st' = Some (w @ (e1 @ e2 @ e3))" using w3 by simp
  ultimately show ?case by blast
qed

lemma epoch_loop_append:
  "epoch_loop T a trl tel (es1 @ es2) st
     = and_then (epoch_loop T a trl tel es1 st) (epoch_loop T a trl tel es2)"
proof (induction es1 arbitrary: st)
  case Nil
  then show ?case by (simp add: and_then_def)
next
  case (Cons e es1)
  show ?case
  proof (cases "train T a (trl e) st")
    case (Inl err)
    then show ?thesis by (simp add: and_then_def)
  next
    case (Inr s1)
    show ?thesis
    proof (cases "test T a (tel e) s1")
      case (Inl err)
      then show ?thesis using Inr by (simp add: and_then_def)
    next
      case (Inr s2)
      then show ?thesis using \<open>train T a (trl e) st = Inr s1\<close> Cons.IH [of s2]
        by (simp add: and_then_def)
    qed
  qed
qed

subsection \<open>The arg-max of a row\<close>





subsection \<open>The concrete run\<close>

lemma round_double_7_10:
  "round_double (7 / 10) = Finite (3152519739159347 / 4503599627370496)"
proof -
  have "floor_log2 (7 / 10) = - 1"
    by (simp add: floor_log2_def doublings.simps)
  moreover have "\<lfloor>31525197391593472 / 5 :: rat\<rfloor> = 6305039478318694"
    by (rule floor_unique) simp_all
  ultimately show ?thesis
    by (simp add: round_double_def round_half_even_def Let_def)
qed

lemma round_double_3_5:
  "round_double (3 / 5) = Finite (5404319552844595 / 9007199254740992)"
proof -
  have "floor_log2 (3 / 5) = - 1"
    by (simp add: floor_log2_def doublings.simps)
  moreover have "\<lfloor>27021597764222976 / 5 :: rat\<rfloor> = 5404319552844595"
    by (rule floor_unique) simp_all
  ultimately show ?thesis
    by (simp add: round_double_def round_half_even_def Let_def)
qed

lemma round_double_0_2_6_10:
  "round_double 0 = Finite 0"
  "round_double 2 = Finite 2" "round_double 6 = Finite 6" "round_double 10 = Finite 10"
  using round_double_small_int [of 2] round_double_small_int [of 6]
    round_double_small_int [of 10]
  by (simp_all add: round_double_def)

lemmas example_defs = example_torch_def sample_hit_def sample_miss_def
  example_train_loader_def example_test_loader_def example_state_def no_options_def

lemma example_train_run:
  "train example_torch (no_options 2) example_train_loader example_state
       = Inr \<lparr>parameters = 3, training = True, global_step = 2,
              log_writer = Some [(''train/loss'', Finite 0, 0), (''train/loss'', Finite 1, 1)]\<rparr>"
  by (simp add: train_def Let_def and_then_def example_defs)

lemma example_test_run:
  "test example_torch (no_options 2) example_test_loader example_state
       = Inr \<lparr>parameters = 0, training = False, global_step = 0,
              log_writer = Some
                [(''test/loss'', Finite (5404319552844595 / 9007199254740992), 0),
                 (''test/accuracy'', Finite (3152519739159347 / 4503599627370496), 0)]\<rparr>"
  by (simp add: test_def Let_def and_then_def add_float_def truediv_int_def
      int_to_float_def int_truediv_def is_zero_def example_defs
      round_double_7_10 round_double_3_5 round_double_0_2_6_10 int_to_float_zero)

lemma example_epochs_run:
  "epoch_loop example_torch (no_options 2) (\<lambda>e. example_train_loader)
       (\<lambda>e. example_test_loader) ([1] @ [2]) example_state
     = Inr \<lparr>parameters = 6, training = False, global_step = 4,
        log_writer =
          Some
           [(''train/loss'', Finite 0, 0), (''train/loss'', Finite 1, 1),
            (''test/loss'', Finite (5404319552844595 / 9007199254740992), 2),
            (''test/accuracy'', Finite (3152519739159347 / 4503599627370496), 2),
            (''train/loss'', Finite 0, 2), (''train/loss'', Finite 1, 3),
            (''test/loss'', Finite (5404319552844595 / 9007199254740992), 4),
            (''test/accuracy'', Finite (3152519739159347 / 4503599627370496), 4)]\<rparr>"
  by (simp add: train_def test_def Let_def and_then_def add_float_def truediv_int_def
      int_to_float_def int_truediv_def is_zero_def example_defs
      round_double_7_10 round_double_3_5 round_double_0_2_6_10 int_to_float_zero)

subsection \<open>The claims\<close>

text \<open>
  Claim C6: for every batched source and every positive log interval, one call of
  \<open>train\<close> (with the log writer open) returns normally and writes exactly
  \<open>ceil(num_batches / log_interval)\<close> scalars: the k-th of them, counting from 0,
  is tagged \<open>train/loss\<close>, holds the loss of the batch with index
  \<open>k * log_interval\<close> (so the batches 0, log_interval, 2 log_interval, ...), and
  carries the step counter's value at that moment; the counter ends that many higher.
\<close>

theorem train_logs_every_interval:
  assumes "0 < log_interval a" and "log_writer st = Some w"
  shows "train T a train_loader st =
     Inr (st\<lparr>parameters := params_after T (parameters st) (batches train_loader),
             training := True,
             global_step := global_step st
               + int (nat \<lceil>(of_nat (length (batches train_loader)) :: rat) / of_int (log_interval a)\<rceil>),
             log_writer := Some (w @
               map (\<lambda>k. (''train/loss'',
                          batch_losses T (parameters st) (batches train_loader)
                            ! (k * nat (log_interval a)),
                          global_step st + int k))
                 [0..<nat \<lceil>(of_nat (length (batches train_loader)) :: rat)
                            / of_int (log_interval a)\<rceil>])\<rparr>)"
proof -
  have nz: "log_interval a \<noteq> 0" using assms(1) by simp
  have w: "log_writer (st\<lparr>training := True\<rparr>) = Some w" using assms(2) by simp
  show ?thesis
    unfolding train_def train_loop_open [OF nz w] logged_multiples [OF assms(1)]
    by (simp add: length_batch_losses)
qed

theorem train_logs_every_interval_witness:
  "0 < log_interval (no_options 2) \<and> log_writer example_state = Some []
   \<and> train example_torch (no_options 2) example_train_loader example_state
       = Inr \<lparr>parameters = 3, training = True, global_step = 2,
              log_writer = Some [(''train/loss'', Finite 0, 0), (''train/loss'', Finite 1, 1)]\<rparr>"
proof -
  have c: "\<lceil>(3::rat) / 2\<rceil> = 2" by (rule ceiling_unique) simp_all
  show ?thesis
    using train_logs_every_interval
      [of "no_options 2" example_state "[]" example_torch example_train_loader]
    by (simp add: example_defs c upt_rec)
qed

text \<open>
  Claim C7: the global step counter moves only when a training scalar is written, by
  one each time and right after the write. Over any sequence of epochs that runs to
  its end, the counter ends at its initial value plus the number of training scalars
  written (so at N when it started from 0 and N were written), the training scalars
  carry the consecutive step values from the initial one on, and the counter never
  decreases from one epoch boundary to a later one.
\<close>

theorem global_step_counts_train_records:
  assumes ret: "epoch_loop T a train_loader test_loader (es1 @ es2) st = Inr st'"
    and w: "log_writer st = Some w"
  shows "\<exists>mid evs. epoch_loop T a train_loader test_loader es1 st = Inr mid
           \<and> global_step st \<le> global_step mid \<and> global_step mid \<le> global_step st'
           \<and> log_writer st' = Some (w @ evs)
           \<and> global_step st' = global_step st + int (length (train_scalars evs))
           \<and> map step_of (train_scalars evs)
               = map (\<lambda>k. global_step st + int k) [0..<length (train_scalars evs)]"
proof -
  from ret obtain mid where m1: "epoch_loop T a train_loader test_loader es1 st = Inr mid"
    and m2: "epoch_loop T a train_loader test_loader es2 mid = Inr st'"
    unfolding epoch_loop_append by (auto dest: and_then_Inr)
  from epoch_loop_effect [OF m1 w] obtain e1 where
    w1: "log_writer mid = Some (w @ e1)"
    and g1: "global_step mid = global_step st + int (length (train_scalars e1))" by blast
  from epoch_loop_effect [OF m2 w1]
  have g2: "global_step mid \<le> global_step st'" by auto
  from epoch_loop_effect [OF ret w] obtain evs where
    "log_writer st' = Some (w @ evs)"
    "map step_of (train_scalars evs)
               = map (\<lambda>k. global_step st + int k) [0..<length (train_scalars evs)]"
    "global_step st' = global_step st + int (length (train_scalars evs))" by blast
  with m1 g1 g2 show ?thesis by auto
qed

theorem global_step_counts_train_records_witness:
  "epoch_loop example_torch (no_options 2) (\<lambda>e. example_train_loader)
       (\<lambda>e. example_test_loader) ([1] @ [2]) example_state
     = Inr \<lparr>parameters = 6, training = False, global_step = 4,
        log_writer =
          Some
           [(''train/loss'', Finite 0, 0), (''train/loss'', Finite 1, 1),
            (''test/loss'', Finite (5404319552844595 / 9007199254740992), 2),
            (''test/accuracy'', Finite (3152519739159347 / 4503599627370496), 2),
            (''train/loss'', Finite 0, 2), (''train/loss'', Finite 1, 3),
            (''test/loss'', Finite (5404319552844595 / 9007199254740992), 4),
            (''test/accuracy'', Finite (3152519739159347 / 4503599627370496), 4)]\<rparr>
   \<and> log_writer example_state = Some []
   \<and> (\<exists>mid. epoch_loop example_torch (no_options 2) (\<lambda>e. example_train_loader)
                (\<lambda>e. example_test_loader) [1] example_state = Inr mid
             \<and> global_step example_state \<le> global_step mid \<and> global_step mid \<le> 4)"
proof -
  have w: "log_writer example_state = Some []" by (simp add: example_state_def)
  from global_step_counts_train_records [OF example_epochs_run w] example_epochs_run w
  show ?thesis by auto
qed



text \<open>
  Claim C9: whenever \<open>test\<close> returns, the model parameters and the global step
  counter are what they were before the call, and the two scalars of the one record
  it wrote are tagged with that unchanged step value.
\<close>

theorem test_keeps_parameters_and_step:
  assumes "test T a test_loader st = Inr st'"
  shows "parameters st' = parameters st \<and> global_step st' = global_step st
     \<and> (\<exists>w l acc. log_writer st = Some w
           \<and> log_writer st' = Some (w @ [(''test/loss'', l, global_step st),
                                          (''test/accuracy'', acc, global_step st)]))"
proof -
  from test_returns [OF assms] obtain w l acc where
    w: "log_writer st = Some w"
    and st': "st' = st\<lparr>training := False,
                log_writer := Some (w @ [(''test/loss'', l, global_step st),
                                         (''test/accuracy'', acc, global_step st)])\<rparr>"
    by blast
  from st' have "parameters st' = parameters st" "global_step st' = global_step st"
    "log_writer st' = Some (w @ [(''test/loss'', l, global_step st),
                                 (''test/accuracy'', acc, global_step st)])"
    by simp_all
  with w show ?thesis by blast
qed

theorem test_keeps_parameters_and_step_witness:
  "test example_torch (no_options 2) example_test_loader example_state
       = Inr \<lparr>parameters = 0, training = False, global_step = 0,
              log_writer = Some
                [(''test/loss'', Finite (5404319552844595 / 9007199254740992), 0),
                 (''test/accuracy'', Finite (3152519739159347 / 4503599627370496), 0)]\<rparr>
   \<and> parameters \<lparr>parameters = 0 :: nat, training = False, global_step = 0,
              log_writer = Some
                [(''test/loss'', Finite (5404319552844595 / 9007199254740992), 0),
                 (''test/accuracy'', Finite (3152519739159347 / 4503599627370496), 0)]\<rparr>
       = parameters example_state
   \<and> global_step \<lparr>parameters = 0 :: nat, training = False, global_step = 0,
              log_writer = Some
                [(''test/loss'', Finite (5404319552844595 / 9007199254740992), 0),
                 (''test/accuracy'', Finite (3152519739159347 / 4503599627370496), 0)]\<rparr>
       = global_step example_state"
  using test_keeps_parameters_and_step [OF example_test_run] example_test_run
  by (simp add: example_state_def)

end
